theory Spec2Isabelle
  imports Main "HOL-Library.Word" "HOL-Library.Sublist"
begin

section \<open>Go library functions used by the caching proxy\<close>

text \<open>
  The proxy is a single Go file. Its disk cache (\<open>DeskCache\<close>) talks to the outside
  through a handful of standard-library functions: \<open>strings.Split\<close>, \<open>strconv.Itoa\<close>,
  \<open>strconv.Atoi\<close>, \<open>filepath.Join\<close>, \<open>os.Stat\<close>, \<open>os.MkdirAll\<close>, \<open>os.Create\<close>,
  \<open>os.ReadFile\<close>, \<open>os.RemoveAll\<close>, \<open>http.Header.Add\<close> and \<open>http.Header.Set\<close>. This section
  models each of them as a function, following the library's documented behaviour (and,
  where the documentation is silent, its implementation). Go strings are byte sequences:
  they are \<open>string\<close> here, \<open>char\<close> being one byte. Go's \<open>int\<close> is taken to be 64 bits wide.
\<close>

subsection \<open>strings.Split and strings.Join with a one-byte separator\<close>

text \<open>
  \<open>strings.Split(s, sep)\<close> cuts \<open>s\<close> at every occurrence of \<open>sep\<close>; with \<open>n\<close> occurrences it
  returns \<open>n + 1\<close> pieces, so the result is never empty (\<open>Split("", ",")\<close> is \<open>[""]\<close>).
\<close>

fun split_on :: "char \<Rightarrow> string \<Rightarrow> string list" where
  "split_on sep [] = [[]]"
| "split_on sep (c # s) =
     (if c = sep then [] # split_on sep s
      else (case split_on sep s of
              [] \<Rightarrow> [[c]]
            | piece # pieces \<Rightarrow> (c # piece) # pieces))"

fun join_with :: "char \<Rightarrow> string list \<Rightarrow> string" where
  "join_with sep [] = []"
| "join_with sep [x] = x"
| "join_with sep (x # y # ys) = x @ sep # join_with sep (y # ys)"

subsection \<open>strconv.Itoa and strconv.Atoi\<close>

datatype num_error = ErrSyntax | ErrRange

definition digit_char :: "nat \<Rightarrow> char" where
  "digit_char d = ''0123456789'' ! d"

fun decimal :: "nat \<Rightarrow> string" where
  "decimal n = (if n < 10 then [digit_char n] else decimal (n div 10) @ [digit_char (n mod 10)])"

declare decimal.simps [simp del]

definition Itoa :: "int \<Rightarrow> string" where
  "Itoa i = (if i < 0 then CHR ''-'' # decimal (nat (- i)) else decimal (nat i))"

text \<open>
  \<open>Atoi\<close> has two paths. A string of 1 to 18 bytes takes the fast path: strip one sign,
  then accumulate \<open>n = n*10 + (ch - '0')\<close>, where the subtraction is on bytes (it wraps) and
  a result above 9 is a syntax error; 18 digits cannot overflow 64 bits. Every other
  string goes to \<open>ParseInt(s, 10, 0)\<close>, which strips one sign and calls \<open>ParseUint\<close>.
  \<open>ParseUint\<close> reports a range error as soon as the accumulated value leaves the 64-bit
  range, without looking at the bytes that follow, and returns the largest value with
  it; \<open>ParseInt\<close> then clamps to the nearest bound of \<open>int64\<close>. A syntax error comes with the
  value 0. The functions return the value and the error side by side, as the Go
  functions do.
\<close>

definition byte_minus_zero :: "char \<Rightarrow> nat" where
  "byte_minus_zero ch = (of_char ch + 208) mod 256"

fun atoi_fast_loop :: "string \<Rightarrow> int \<Rightarrow> int option" where
  "atoi_fast_loop [] n = Some n"
| "atoi_fast_loop (ch # s) n =
     (let d = byte_minus_zero ch
      in if d > 9 then None else atoi_fast_loop s (n * 10 + int d))"

definition uint64_cutoff :: nat where
  "uint64_cutoff = (2 ^ 64 - 1) div 10 + 1"

definition uint64_max :: nat where
  "uint64_max = 2 ^ 64 - 1"

fun ParseUint_loop :: "string \<Rightarrow> nat \<Rightarrow> nat \<times> num_error option" where
  "ParseUint_loop [] n = (n, None)"
| "ParseUint_loop (c # s) n =
     (let d = byte_minus_zero c
      in if d > 9 then (0, Some ErrSyntax)
         else if n \<ge> uint64_cutoff then (uint64_max, Some ErrRange)
         else (let n10 = n * 10; n1 = (n10 + d) mod 2 ^ 64
               in if n1 < n10 \<or> n1 > uint64_max then (uint64_max, Some ErrRange)
                  else ParseUint_loop s n1))"

definition ParseUint :: "string \<Rightarrow> nat \<times> num_error option" where
  "ParseUint s = (if s = [] then (0, Some ErrSyntax) else ParseUint_loop s 0)"

definition strip_sign :: "string \<Rightarrow> string" where
  "strip_sign s = (case s of [] \<Rightarrow> [] | c # r \<Rightarrow> if c = CHR ''+'' \<or> c = CHR ''-'' then r else s)"

definition is_neg :: "string \<Rightarrow> bool" where
  "is_neg s = (case s of [] \<Rightarrow> False | c # r \<Rightarrow> c = CHR ''-'')"

definition ParseInt :: "string \<Rightarrow> int \<times> num_error option" where
  "ParseInt s =
     (if s = [] then (0, Some ErrSyntax)
      else (case ParseUint (strip_sign s) of
              (un, err) \<Rightarrow>
                if err = Some ErrSyntax then (0, err)
                else if \<not> is_neg s \<and> un \<ge> 2 ^ 63 then (2 ^ 63 - 1, Some ErrRange)
                else if is_neg s \<and> un > 2 ^ 63 then (- (2 ^ 63), Some ErrRange)
                else (if is_neg s then - int un else int un, None)))"

definition Atoi :: "string \<Rightarrow> int \<times> num_error option" where
  "Atoi s =
     (if 0 < length s \<and> length s < 19 then
        (if strip_sign s = [] then (0, Some ErrSyntax)
         else (case atoi_fast_loop (strip_sign s) 0 of
                 None \<Rightarrow> (0, Some ErrSyntax)
               | Some n \<Rightarrow> (if is_neg s then - n else n, None)))
      else ParseInt s)"

subsection \<open>filepath.Clean and filepath.Join\<close>

text \<open>
  \<open>Clean\<close> works on the elements between slashes: it drops empty elements and \<open>.\<close>, lets
  \<open>..\<close> cancel the element before it, drops a \<open>..\<close> that would climb above the root of a
  rooted path and keeps it at the front of a relative one. The empty result is \<open>.\<close>.
  \<open>Join\<close> skips leading empty arguments, joins the rest with slashes and cleans the
  result; when every argument is empty it returns the empty string.
\<close>

definition rooted :: "string \<Rightarrow> bool" where
  "rooted s = (case s of [] \<Rightarrow> False | c # r \<Rightarrow> c = CHR ''/'')"

fun clean_step :: "bool \<Rightarrow> string list \<Rightarrow> string \<Rightarrow> string list" where
  "clean_step r out c =
     (if c = [] \<or> c = ''.'' then out
      else if c = ''..'' then
        (if out \<noteq> [] \<and> last out \<noteq> ''..'' then butlast out
         else if r then out
         else out @ [''..''])
      else out @ [c])"

declare clean_step.simps [simp del]

definition clean_elems :: "string \<Rightarrow> string list" where
  "clean_elems s = foldl (clean_step (rooted s)) [] (split_on CHR ''/'' s)"

definition Clean :: "string \<Rightarrow> string" where
  "Clean s =
     (if s = [] then ''.''
      else (let t = (if rooted s then ''/'' else []) @ join_with CHR ''/'' (clean_elems s)
            in if t = [] then ''.'' else t))"

definition Join :: "string list \<Rightarrow> string" where
  "Join elem =
     (case dropWhile (\<lambda>e. e = []) elem of
        [] \<Rightarrow> []
      | e # es \<Rightarrow> Clean (join_with CHR ''/'' (e # es)))"

subsection \<open>The file system and the os package\<close>

text \<open>
  The state outside the program is the working directory of the process, the file
  tree, and the clock. The tree is a map from absolute paths (lists of names, the empty
  list being the root directory) to nodes. Path strings are resolved lexically from the
  root or from the working directory, \<open>..\<close> stepping to the parent and staying at the root
  there: this is what the kernel does when no symbolic link is involved and every
  directory stepped out of exists, which holds for the paths \<open>filepath.Join\<close> builds.
  Permissions, symbolic links and short writes are not modelled: an operation fails
  only for a reason visible in the tree (a missing name, a regular file where a
  directory is needed, a directory where a regular file is needed).
\<close>

datatype errno = ENOENT | ENOTDIR | EISDIR | EINVAL | EBUSY | EBADF

datatype node = File string | Dir

record world =
  cwd :: "string list"
  files :: "string list \<rightharpoonup> node"
  now :: nat

fun walk :: "string list \<Rightarrow> string \<Rightarrow> string list" where
  "walk p c =
     (if c = [] \<or> c = ''.'' then p
      else if c = ''..'' then butlast p
      else p @ [c])"

declare walk.simps [simp del]

definition resolve :: "world \<Rightarrow> string \<Rightarrow> string list" where
  "resolve w s = foldl walk (if rooted s then [] else cwd w) (split_on CHR ''/'' s)"

definition is_file :: "node option \<Rightarrow> bool" where
  "is_file x = (case x of Some (File c) \<Rightarrow> True | _ \<Rightarrow> False)"

text \<open>
  Looking a path up walks down from the root: the first proper ancestor that is not a
  directory stops the walk, with ENOENT when it is missing and ENOTDIR when it is a
  regular file.
\<close>

definition obstacle :: "world \<Rightarrow> string list \<Rightarrow> errno option" where
  "obstacle w p =
     (case List.find (\<lambda>q. files w q \<noteq> Some Dir) (butlast (prefixes p)) of
        None \<Rightarrow> None
      | Some q \<Rightarrow> (case files w q of None \<Rightarrow> Some ENOENT | Some n \<Rightarrow> Some ENOTDIR))"

definition Stat :: "world \<Rightarrow> string \<Rightarrow> errno + node" where
  "Stat w s =
     (if s = [] then Inl ENOENT
      else (let p = resolve w s
            in case obstacle w p of
                 Some err \<Rightarrow> Inl err
               | None \<Rightarrow> (case files w p of None \<Rightarrow> Inl ENOENT | Some n \<Rightarrow> Inr n)))"

definition ReadFile :: "world \<Rightarrow> string \<Rightarrow> errno + string" where
  "ReadFile w s =
     (case Stat w s of
        Inl e \<Rightarrow> Inl e
      | Inr Dir \<Rightarrow> Inl EISDIR
      | Inr (File c) \<Rightarrow> Inr c)"

text \<open>
  \<open>MkdirAll\<close> creates the directory and every missing parent. It fails, creating nothing,
  when the path or one of its ancestors is a regular file; on an existing directory it
  does nothing. The permission argument plays no role in this model.
\<close>

definition with_dirs :: "world \<Rightarrow> string list \<Rightarrow> world" where
  "with_dirs w p =
     w\<lparr>files := (\<lambda>q. if prefix q p \<and> files w q = None then Some Dir else files w q)\<rparr>"

definition MkdirAll :: "world \<Rightarrow> string \<Rightarrow> nat \<Rightarrow> world \<times> errno option" where
  "MkdirAll w s perm =
     (if s = [] then (w, Some ENOENT)
      else (let p = resolve w s
            in if list_ex (\<lambda>q. is_file (files w q)) (prefixes p) then (w, Some ENOTDIR)
               else (with_dirs w p, None)))"

text \<open>
  \<open>Create\<close> opens the file for writing, creating it when it is missing and truncating it
  when it exists. The handle it returns is the resolved path of the file.
\<close>

definition Create :: "world \<Rightarrow> string \<Rightarrow> world \<times> (errno + string list)" where
  "Create w s =
     (if s = [] then (w, Inl ENOENT)
      else (let p = resolve w s
            in if p = [] then (w, Inl EISDIR)
               else (case obstacle w p of
                       Some err \<Rightarrow> (w, Inl err)
                     | None \<Rightarrow>
                         (case files w p of
                            Some Dir \<Rightarrow> (w, Inl EISDIR)
                          | _ \<Rightarrow> (w\<lparr>files := (files w)(p \<mapsto> File [])\<rparr>, Inr p)))))"

definition WriteString :: "world \<Rightarrow> string list \<Rightarrow> string \<Rightarrow> world \<times> errno option" where
  "WriteString w f content =
     (case files w f of
        Some (File c) \<Rightarrow> (w\<lparr>files := (files w)(f \<mapsto> File (c @ content))\<rparr>, None)
      | _ \<Rightarrow> (w, Some EBADF))"



subsection \<open>http.Header\<close>

text \<open>
  A header is a Go map from names to value lists. \<open>Add\<close> and \<open>Set\<close> store under the
  canonical form of the name: a name made of header-token bytes only gets its first
  letter and every letter after a hyphen in upper case and all other letters in lower
  case; any other name is left as it is.
\<close>

type_synonym Header = "string \<rightharpoonup> string list"

definition lower_letters :: string where
  "lower_letters = ''abcdefghijklmnopqrstuvwxyz''"

definition upper_letters :: string where
  "upper_letters = ''ABCDEFGHIJKLMNOPQRSTUVWXYZ''"

definition validHeaderFieldByte :: "char \<Rightarrow> bool" where
  "validHeaderFieldByte c =
     (c \<in> set (''!#$%&*+-.^_`|~'' @ [CHR 0x27] @ ''0123456789'' @ upper_letters @ lower_letters))"

definition to_upper :: "char \<Rightarrow> char" where
  "to_upper c = (case map_of (zip lower_letters upper_letters) c of Some u \<Rightarrow> u | None \<Rightarrow> c)"

definition to_lower :: "char \<Rightarrow> char" where
  "to_lower c = (case map_of (zip upper_letters lower_letters) c of Some l \<Rightarrow> l | None \<Rightarrow> c)"

fun canonical_bytes :: "bool \<Rightarrow> string \<Rightarrow> string" where
  "canonical_bytes upper [] = []"
| "canonical_bytes upper (c # s) =
     (let c' = (if upper \<and> c \<in> set lower_letters then to_upper c
                else if \<not> upper \<and> c \<in> set upper_letters then to_lower c
                else c)
      in c' # canonical_bytes (c' = CHR ''-'') s)"

definition CanonicalMIMEHeaderKey :: "string \<Rightarrow> string" where
  "CanonicalMIMEHeaderKey s =
     (if list_all validHeaderFieldByte s then canonical_bytes True s else s)"

definition Header_Add :: "Header \<Rightarrow> string \<Rightarrow> string \<Rightarrow> Header" where
  "Header_Add h key val =
     (let k = CanonicalMIMEHeaderKey key
      in h(k \<mapsto> (case h k of None \<Rightarrow> [] | Some vv \<Rightarrow> vv) @ [val]))"

definition Header_Set :: "Header \<Rightarrow> string \<Rightarrow> string \<Rightarrow> Header" where
  "Header_Set h key val = h(CanonicalMIMEHeaderKey key \<mapsto> [val])"

text \<open>
  Go visits the keys of a map in an order of its own choosing. A \<open>range\<close> loop over a
  header is modelled with that order as an argument: a list holding every key of the
  map once.
\<close>

definition range_order :: "Header \<Rightarrow> string list \<Rightarrow> bool" where
  "range_order h order = (distinct order \<and> set order = dom h)"

definition range_of :: "Header \<Rightarrow> string list \<Rightarrow> (string \<times> string list) list" where
  "range_of h order = List.map_filter (\<lambda>k. map_option (Pair k) (h k)) order"

section \<open>The caching proxy\<close>

subsection \<open>The disk cache\<close>

record DeskCache =
  DirPath :: string
  TTL :: "64 word"

record CacheEntry =
  StatusCode :: "64 word"
  Body :: string
  Headers :: Header

datatype error =
    DirNotExist
  | CouldNotAccess errno
  | NotADirectory
  | PathError errno
  | CacheSetup error

definition validateDirPath :: "world \<Rightarrow> string \<Rightarrow> error option" where
  "validateDirPath w path =
     (case Stat w path of
        Inl err \<Rightarrow> if err = ENOENT then Some DirNotExist else Some (CouldNotAccess err)
      | Inr info \<Rightarrow> if info \<noteq> Dir then Some NotADirectory else None)"

definition NewDeskCache ::
  "world \<Rightarrow> string \<Rightarrow> string \<Rightarrow> 64 word \<Rightarrow> world \<times> (error + DeskCache)" where
  "NewDeskCache w dirPath serverPort ttl =
     (case validateDirPath w dirPath of
        Some err \<Rightarrow> (w, Inl err)
      | None \<Rightarrow>
          (case MkdirAll w dirPath 2 of
             (w1, Some err) \<Rightarrow> (w1, Inl (PathError err))
           | (w1, None) \<Rightarrow> (w1, Inr \<lparr>DirPath = dirPath, TTL = ttl\<rparr>)))"

definition createAndWriteFile :: "world \<Rightarrow> string \<Rightarrow> string \<Rightarrow> world \<times> errno option" where
  "createAndWriteFile w path content =
     (case Create w path of
        (w1, Inl err) \<Rightarrow> (w1, Some err)
      | (w1, Inr file) \<Rightarrow>
          (case WriteString w1 file content of
             (w2, Some err) \<Rightarrow> (w2, Some err)
           | (w2, None) \<Rightarrow> (w2, None)))"

text \<open>
  The loop of \<open>storeEntryData\<close> over the header map: for each name, the name, then a comma
  and a value for each value, then a newline.
\<close>

definition headers_string :: "(string \<times> string list) list \<Rightarrow> string" where
  "headers_string kvs =
     foldl (\<lambda>headersStr (k, vv).
              foldl (\<lambda>str v. str @ '','' @ v) (headersStr @ k) vv @ [CHR 0x0A])
           [] kvs"

definition storeEntryData ::
  "world \<Rightarrow> string \<Rightarrow> CacheEntry \<Rightarrow> string list \<Rightarrow> world \<times> errno option" where
  "storeEntryData w entryDir ce order =
     (let statusPath = Join [entryDir, ''status''];
          headersPath = Join [entryDir, ''headers''];
          bodyPath = Join [entryDir, ''body''];
          headersStr = headers_string (range_of (Headers ce) order)
      in case createAndWriteFile w statusPath (Itoa (sint (StatusCode ce))) of
           (w1, Some err) \<Rightarrow> (w1, Some err)
         | (w1, None) \<Rightarrow>
             (case createAndWriteFile w1 headersPath headersStr of
                (w2, Some err) \<Rightarrow> (w2, Some err)
              | (w2, None) \<Rightarrow>
                  (case createAndWriteFile w2 bodyPath (Body ce) of
                     (w3, Some err) \<Rightarrow> (w3, Some err)
                   | (w3, None) \<Rightarrow> (w3, None))))"

text \<open>
  \<open>Set\<close> ends the process through \<open>log.Fatalf\<close> when the entry directory cannot be created
  (\<open>Fatal\<close>); otherwise it returns what \<open>storeEntryData\<close> returns.
\<close>

datatype set_result = Fatal errno | Returned "errno option"

definition DeskCache_Set ::
  "world \<Rightarrow> DeskCache \<Rightarrow> string \<Rightarrow> CacheEntry \<Rightarrow> string list \<Rightarrow> world \<times> set_result" where
  "DeskCache_Set w dc key val order =
     (let entryDir = Join [DirPath dc, key]
      in case MkdirAll w entryDir 493 of
           (w1, Some err) \<Rightarrow> (w1, Fatal err)
         | (w1, None) \<Rightarrow>
             (case storeEntryData w1 entryDir val order of
                (w2, r) \<Rightarrow> (w2, Returned r)))"

text \<open>
  The header loop of \<open>Get\<close>: each line is split at the commas, the first piece is the
  name and every further piece is added as a value. \<open>strings.Split\<close> returns at least
  one piece, so \<open>header[0]\<close> cannot fail.
\<close>

definition add_line :: "Header \<Rightarrow> string \<Rightarrow> Header" where
  "add_line h line =
     (case split_on CHR '','' line of
        [] \<Rightarrow> h
      | key # vals \<Rightarrow> foldl (\<lambda>h' val. Header_Add h' key val) h vals)"

definition parse_headers :: "string \<Rightarrow> Header" where
  "parse_headers cont = foldl add_line Map.empty (split_on (CHR 0x0A) cont)"

definition DeskCache_Get :: "world \<Rightarrow> DeskCache \<Rightarrow> string \<Rightarrow> CacheEntry option" where
  "DeskCache_Get w dc key =
     (let statusPath = Join [DirPath dc, key, ''status''];
          headersPath = Join [DirPath dc, key, ''headers''];
          bodyPath = Join [DirPath dc, key, ''body'']
      in case ReadFile w statusPath of
           Inl err \<Rightarrow> None
         | Inr cont \<Rightarrow>
             (let statusCode = word_of_int (fst (Atoi cont))
              in case ReadFile w headersPath of
                   Inl err \<Rightarrow> None
                 | Inr cont \<Rightarrow>
                     (let headers = parse_headers cont
                      in case ReadFile w bodyPath of
                           Inl err \<Rightarrow> None
                         | Inr cont \<Rightarrow>
                             Some \<lparr>StatusCode = statusCode, Body = cont,
                                    Headers = headers\<rparr>)))"


subsection \<open>The server and its handler\<close>

text \<open>
  The handler writes to an \<open>http.ResponseWriter\<close>: a header map the handler may change,
  and what has gone to the client. \<open>WriteHeader\<close> sends the status line with the header
  map as it is at that moment (later changes of the map are not sent), does nothing
  when the header is already written, and panics on a code outside 100..999. \<open>Write\<close>
  appends to the body, writing the header with code 200 first if that has not
  happened. The lock of the server is not modelled: one request is handled at a time.
\<close>

record Request =
  Method :: string
  URL_Path :: string
  URL_RawQuery :: string
  ReqBody :: string

record CachingProxyServer =
  Port :: string
  Origin :: string
  Cache :: DeskCache

record ResponseWriter =
  rw_header :: Header
  wroteHeader :: bool
  sent_status :: "64 word"
  sent_header :: Header
  sent_body :: string

definition WriteHeader :: "ResponseWriter \<Rightarrow> 64 word \<Rightarrow> ResponseWriter option" where
  "WriteHeader rw code =
     (if wroteHeader rw then Some rw
      else if sint code < 100 \<or> sint code > 999 then None
      else Some (rw\<lparr>wroteHeader := True, sent_status := code, sent_header := rw_header rw\<rparr>))"

definition Write :: "ResponseWriter \<Rightarrow> string \<Rightarrow> ResponseWriter" where
  "Write rw data =
     (let rw1 = (if wroteHeader rw then rw
                 else rw\<lparr>wroteHeader := True, sent_status := 200, sent_header := rw_header rw\<rparr>)
      in rw1\<lparr>sent_body := sent_body rw1 @ data\<rparr>)"

definition http_Error :: "ResponseWriter \<Rightarrow> string \<Rightarrow> 64 word \<Rightarrow> ResponseWriter option" where
  "http_Error rw msg code =
     (let h = (rw_header rw)(''Content-Length'' := None);
          h1 = Header_Set h ''Content-Type'' ''text/plain; charset=utf-8'';
          h2 = Header_Set h1 ''X-Content-Type-Options'' ''nosniff''
      in case WriteHeader (rw\<lparr>rw_header := h2\<rparr>) code of
           None \<Rightarrow> None
         | Some rw1 \<Rightarrow> Some (Write rw1 (msg @ [CHR 0x0A])))"


definition copyHeaders :: "Header \<Rightarrow> Header \<Rightarrow> string list \<Rightarrow> Header" where
  "copyHeaders dis src order =
     foldl (\<lambda>h (k, vv). foldl (\<lambda>h' v. Header_Add h' k v) h vv) dis (range_of src order)"

text \<open>
  The upstream is outside the program: what \<open>http.NewRequest\<close>, \<open>http.DefaultClient.Do\<close>
  and \<open>io.ReadAll\<close> give for the request is an argument of the handler.
\<close>

datatype upstream =
    NewRequestFailed
  | DoFailed
  | ReadAllFailed
  | Fetched "64 word" Header string

datatype ending = Finished | Panicked | Exited

record outcome =
  after :: world
  writer :: ResponseWriter
  ending :: ending
  logged :: "string list"

definition cache_key :: "Request \<Rightarrow> string" where
  "cache_key r = Method r @ ''-'' @ URL_Path r"

definition serve_hit ::
  "world \<Rightarrow> ResponseWriter \<Rightarrow> string \<Rightarrow> CacheEntry \<Rightarrow> string list \<Rightarrow> outcome" where
  "serve_hit w rw key val order =
     (let lg = [''HIT:   '' @ key];
          rw1 = rw\<lparr>rw_header := Header_Set (rw_header rw) ''X-Cache'' ''HIT''\<rparr>
      in case WriteHeader rw1 (StatusCode val) of
           None \<Rightarrow> \<lparr>after = w, writer = rw1, ending = Panicked, logged = lg\<rparr>
         | Some rw2 \<Rightarrow>
             (let rw3 = rw2\<lparr>rw_header := copyHeaders (rw_header rw2) (Headers val) order\<rparr>;
                  rw4 = Write rw3 (Body val)
              in \<lparr>after = w, writer = rw4, ending = Finished, logged = lg\<rparr>))"

definition fail_forward :: "world \<Rightarrow> ResponseWriter \<Rightarrow> string list \<Rightarrow> outcome" where
  "fail_forward w rw lg =
     (case http_Error rw ''error forwarding request'' 500 of
        None \<Rightarrow> \<lparr>after = w, writer = rw, ending = Panicked, logged = lg\<rparr>
      | Some rw1 \<Rightarrow> \<lparr>after = w, writer = rw1, ending = Finished, logged = lg\<rparr>)"

definition serve_miss ::
  "world \<Rightarrow> CachingProxyServer \<Rightarrow> ResponseWriter \<Rightarrow> Request \<Rightarrow> string \<Rightarrow> upstream \<Rightarrow>
   string list \<Rightarrow> string list \<Rightarrow> outcome" where
  "serve_miss w cps rw r key up order_copy order_store =
     (let lg = [''MISS:  '' @ key];
          rw1 = rw\<lparr>rw_header := Header_Set (rw_header rw) ''X-Cache'' ''MISS''\<rparr>
      in case up of
           NewRequestFailed \<Rightarrow> fail_forward w rw1 lg
         | DoFailed \<Rightarrow> fail_forward w rw1 lg
         | ReadAllFailed \<Rightarrow> fail_forward w rw1 lg
         | Fetched code hdr body \<Rightarrow>
             (case WriteHeader rw1 code of
                None \<Rightarrow> \<lparr>after = w, writer = rw1, ending = Panicked, logged = lg\<rparr>
              | Some rw2 \<Rightarrow>
                  (let rw3 = rw2\<lparr>rw_header := copyHeaders (rw_header rw2) hdr order_copy\<rparr>;
                       rw4 = Write rw3 body
                   in if Method r = ''GET'' then
                        (case DeskCache_Set w (Cache cps) key
                                \<lparr>StatusCode = code, Body = body, Headers = hdr\<rparr> order_store of
                           (w1, Fatal err) \<Rightarrow>
                             \<lparr>after = w1, writer = rw4, ending = Exited, logged = lg\<rparr>
                         | (w1, Returned err) \<Rightarrow>
                             \<lparr>after = w1, writer = rw4, ending = Finished, logged = lg\<rparr>)
                      else \<lparr>after = w, writer = rw4, ending = Finished, logged = lg\<rparr>)))"

definition handleRequests ::
  "world \<Rightarrow> CachingProxyServer \<Rightarrow> ResponseWriter \<Rightarrow> Request \<Rightarrow> upstream \<Rightarrow>
   string list \<Rightarrow> string list \<Rightarrow> outcome" where
  "handleRequests w cps rw r up order_copy order_store =
     (let key = cache_key r
      in case DeskCache_Get w (Cache cps) key of
           Some val \<Rightarrow>
             if Method r = ''GET'' then serve_hit w rw key val order_copy
             else serve_miss w cps rw r key up order_copy order_store
         | None \<Rightarrow> serve_miss w cps rw r key up order_copy order_store)"

section \<open>Notions used in the claims\<close>

text \<open>
  A decimal integer is an optional sign followed by one or more decimal digits.
\<close>

definition decimal_integer :: "string \<Rightarrow> bool" where
  "decimal_integer s =
     (strip_sign s \<noteq> [] \<and> list_all (\<lambda>c. c \<in> set ''0123456789'') (strip_sign s))"

text \<open>
  The grammar of a line of the headers file is \<open>name,value[,value]*\<close>: a header record
  has at least one comma. Its name is the text before the first comma and its values
  are the pieces after it. \<open>collected lines name\<close> is what a list of header records says
  about a header name: nothing when no record has that name (in canonical form), and
  otherwise the values of the records with that name, in the order of the lines.
\<close>

definition header_record :: "string \<Rightarrow> bool" where
  "header_record line = (CHR '','' \<in> set line)"

definition line_name :: "string \<Rightarrow> string" where
  "line_name line = hd (split_on CHR '','' line)"

definition line_values :: "string \<Rightarrow> string list" where
  "line_values line = tl (split_on CHR '','' line)"

definition collected :: "string list \<Rightarrow> string \<Rightarrow> string list option" where
  "collected lines name =
     (case filter (\<lambda>l. CanonicalMIMEHeaderKey (line_name l) = name) lines of
        [] \<Rightarrow> None
      | l # ls \<Rightarrow> Some (concat (map line_values (l # ls))))"

text \<open>
  The line of the headers file for a header name and its values, in the words of the
  format: the name and the values joined by commas, ended by a newline.
\<close>

definition header_line :: "string \<times> string list \<Rightarrow> string" where
  "header_line kv = join_with CHR '','' (fst kv # snd kv) @ [CHR 0x0A]"

text \<open>
  A header survives the headers file when neither its name nor any of its values holds
  a comma or a newline, its name is in canonical form, and it has at least one value.
  A plain name is a file name: one path element other than \<open>.\<close> and \<open>..\<close>.
\<close>

definition plain_text :: "string \<Rightarrow> bool" where
  "plain_text s = (CHR '','' \<notin> set s \<and> CHR 0x0A \<notin> set s)"

definition wire_safe :: "(string \<times> string list) list \<Rightarrow> bool" where
  "wire_safe kvs =
     list_all (\<lambda>kv. plain_text (fst kv) \<and> CanonicalMIMEHeaderKey (fst kv) = fst kv \<and>
                     snd kv \<noteq> [] \<and> list_all plain_text (snd kv)) kvs"

definition plain_name :: "string \<Rightarrow> bool" where
  "plain_name f = (CHR ''/'' \<notin> set f \<and> f \<noteq> [] \<and> f \<noteq> ''.'' \<and> f \<noteq> ''..'')"

text \<open>
  A path is present in the tree when the walk down to it meets directories only and
  ends at a node.
\<close>

definition present :: "world \<Rightarrow> string list \<Rightarrow> bool" where
  "present w q = (obstacle w q = None \<and> files w q \<noteq> None)"

text \<open>
  One state keeps another when the working directory is the same, every directory is
  still a directory and every regular file is still a regular file.
\<close>

definition keeps :: "world \<Rightarrow> world \<Rightarrow> bool" where
  "keeps w w' =
     (cwd w' = cwd w \<and>
      (\<forall>q. files w q = Some Dir \<longrightarrow> files w' q = Some Dir) \<and>
      (\<forall>q c. files w q = Some (File c) \<longrightarrow> (\<exists>c'. files w' q = Some (File c'))))"

section \<open>Example states\<close>

text \<open>
  A process running in \<open>/srv\<close> with a cache rooted at \<open>cache\<close> that holds one entry, for the
  key \<open>GET-/a\<close>; the second line of its headers file is not a header record. The variants
  have the headers file deleted, and a status file that is not a number.
\<close>

definition ex_files :: "string list \<rightharpoonup> node" where
  "ex_files = map_of
     [([], Dir),
      ([''srv''], Dir),
      ([''srv'', ''cache''], Dir),
      ([''srv'', ''cache'', ''GET-''], Dir),
      ([''srv'', ''cache'', ''GET-'', ''a''], Dir),
      ([''srv'', ''cache'', ''GET-'', ''a'', ''status''], File ''200''),
      ([''srv'', ''cache'', ''GET-'', ''a'', ''headers''], File ''Content-Type,text/plain\<newline>broken line\<newline>X-A,1,2\<newline>''),
      ([''srv'', ''cache'', ''GET-'', ''a'', ''body''], File ''hello'')]"

definition ex_world :: world where
  "ex_world = \<lparr>cwd = [''srv''], files = ex_files, now = 0\<rparr>"

definition ex_cache :: DeskCache where
  "ex_cache = \<lparr>DirPath = ''cache'', TTL = 3600000000000\<rparr>"

definition ex_partial :: world where
  "ex_partial = ex_world\<lparr>files := (files ex_world)([''srv'', ''cache'', ''GET-'', ''a'', ''headers''] := None)\<rparr>"

definition ex_status_path :: "string list" where
  "ex_status_path = [''srv'', ''cache'', ''GET-'', ''a'', ''status'']"

definition ex_overflow :: world where
  "ex_overflow = ex_world\<lparr>files := (files ex_world)(ex_status_path \<mapsto> File ''99999999999999999999x'')\<rparr>"

definition ex_garbled :: world where
  "ex_garbled = ex_world\<lparr>files := (files ex_world)(ex_status_path \<mapsto> File ''2oo'')\<rparr>"

text \<open>
  The same process before anything is stored, an entry and the order in which Go happens
  to visit its two headers, the state after storing it, and an entry whose \<open>Date\<close> header
  has a comma in its value, as every HTTP date has.
\<close>

definition ex_empty :: world where
  "ex_empty = \<lparr>cwd = [''srv''],
               files = map_of [([], Dir), ([''srv''], Dir), ([''srv'', ''cache''], Dir)],
               now = 0\<rparr>"

definition ex_entry :: CacheEntry where
  "ex_entry = \<lparr>StatusCode = 200, Body = ''hello'',
               Headers = [''Content-Type'' \<mapsto> [''text/plain''], ''X-A'' \<mapsto> [''1'', ''2'']]\<rparr>"

definition ex_order :: "string list" where
  "ex_order = [''X-A'', ''Content-Type'']"

definition ex_stored :: world where
  "ex_stored = fst (DeskCache_Set ex_empty ex_cache ''GET-/a'' ex_entry ex_order)"

definition ex_dated :: CacheEntry where
  "ex_dated = \<lparr>StatusCode = 200, Body = ''hello'', Headers = [''Date'' \<mapsto> [''Mon, 02 Jan'']]\<rparr>"

definition ex_dated_stored :: world where
  "ex_dated_stored = fst (DeskCache_Set ex_empty ex_cache ''GET-/a'' ex_dated [''Date''])"



text \<open>
  A response writer nothing has been written to, the server over the example cache, a
  GET and a POST request for the same path, an upstream response, and a state in which
  an entry lies under the key of the POST request.
\<close>

definition fresh_writer :: ResponseWriter where
  "fresh_writer = \<lparr>rw_header = Map.empty, wroteHeader = False, sent_status = 0,
                    sent_header = Map.empty, sent_body = []\<rparr>"

definition ex_server :: CachingProxyServer where
  "ex_server = \<lparr>Port = '':8080'', Origin = ''http://dummyjson.com'', Cache = ex_cache\<rparr>"

definition ex_get :: Request where
  "ex_get = \<lparr>Method = ''GET'', URL_Path = ''/a'', URL_RawQuery = ''page=2'', ReqBody = []\<rparr>"

definition ex_post :: Request where
  "ex_post = \<lparr>Method = ''POST'', URL_Path = ''/a'', URL_RawQuery = [], ReqBody = ''x=1''\<rparr>"

definition ex_up :: upstream where
  "ex_up = Fetched 201 [''Content-Type'' \<mapsto> [''text/plain'']] ''made''"

definition ex_post_stored :: world where
  "ex_post_stored = fst (DeskCache_Set ex_empty ex_cache ''POST-/a'' ex_entry ex_order)"

section \<open>Lemmas about the library functions\<close>

lemma split_on_not_Nil [simp]: "split_on sep s \<noteq> []"
  by (induction s) (auto split: list.splits)

lemma split_on_no_sep: "sep \<notin> set s \<Longrightarrow> split_on sep s = [s]"
  by (induction s) auto

lemma split_on_append_sep:
  "sep \<notin> set a \<Longrightarrow> split_on sep (a @ sep # b) = a # split_on sep b"
  by (induction a) auto

lemma split_on_pieces: "p \<in> set (split_on sep s) \<Longrightarrow> sep \<notin> set p"
proof (induction s arbitrary: p)
  case Nil
  then show ?case by simp
next
  case (Cons c s)
  show ?case
  proof (cases "c = sep")
    case True
    with Cons show ?thesis by auto
  next
    case False
    obtain q qs where q: "split_on sep s = q # qs"
      by (cases "split_on sep s") auto
    with Cons.prems False have "p = c # q \<or> p \<in> set qs" by auto
    with Cons.IH q False show ?thesis by auto
  qed
qed

lemma byte_minus_zero_digit: "d < 10 \<Longrightarrow> byte_minus_zero (digit_char d) = d"
proof -
  assume "d < 10"
  then have "d \<in> {0, 1, 2, 3, 4, 5, 6, 7, 8, 9}" by auto
  then show ?thesis
    by (auto simp: byte_minus_zero_def digit_char_def)
qed

lemma digit_char_not_sign: "d < 10 \<Longrightarrow> digit_char d \<noteq> CHR ''-'' \<and> digit_char d \<noteq> CHR ''+''"
proof -
  assume "d < 10"
  then have "d \<in> {0, 1, 2, 3, 4, 5, 6, 7, 8, 9}" by auto
  then show ?thesis
    by (auto simp: digit_char_def)
qed

lemma decimal_not_Nil [simp]: "decimal n \<noteq> []"
  by (subst decimal.simps) simp

lemma hd_decimal_not_sign: "hd (decimal n) \<noteq> CHR ''-'' \<and> hd (decimal n) \<noteq> CHR ''+''"
proof (induction n rule: decimal.induct)
  case (1 n)
  show ?case
  proof (cases "n < 10")
    case True
    then show ?thesis
      using digit_char_not_sign [of n] by (subst (1 2) decimal.simps) simp
  next
    case False
    then show ?thesis
      using 1 by (subst (1 2) decimal.simps) simp
  qed
qed

lemma strip_sign_decimal [simp]: "strip_sign (decimal n) = decimal n"
  using hd_decimal_not_sign [of n] decimal_not_Nil [of n]
  by (cases "decimal n") (auto simp: strip_sign_def)

lemma is_neg_decimal [simp]: "\<not> is_neg (decimal n)"
  using hd_decimal_not_sign [of n] decimal_not_Nil [of n]
  by (cases "decimal n") (auto simp: is_neg_def)

lemma atoi_fast_loop_snoc:
  "atoi_fast_loop (s @ [c]) n =
     (case atoi_fast_loop s n of None \<Rightarrow> None | Some k \<Rightarrow> atoi_fast_loop [c] k)"
  by (induction s arbitrary: n) (auto simp: Let_def)

lemma atoi_fast_loop_decimal: "atoi_fast_loop (decimal m) 0 = Some (int m)"
proof (induction m rule: decimal.induct)
  case (1 n)
  show ?case
  proof (cases "n < 10")
    case True
    then show ?thesis
      by (subst decimal.simps) (simp add: byte_minus_zero_digit)
  next
    case False
    then have "atoi_fast_loop (decimal (n div 10)) 0 = Some (int (n div 10))"
      using 1 by simp
    moreover have "n mod 10 < 10" by simp
    moreover have "int (n div 10) * 10 + int (n mod 10) = int n"
      by (simp add: zdiv_int zmod_int)
    ultimately show ?thesis
      using False
      by (subst decimal.simps) (simp add: atoi_fast_loop_snoc byte_minus_zero_digit Let_def)
  qed
qed

lemma ParseUint_loop_snoc:
  "ParseUint_loop (s @ [c]) n =
     (case ParseUint_loop s n of
        (k, None) \<Rightarrow> ParseUint_loop [c] k
      | (k, Some e) \<Rightarrow> (k, Some e))"
  by (induction s arbitrary: n) (auto simp: Let_def)

lemma ParseUint_loop_decimal:
  "m < 2 ^ 64 \<Longrightarrow> ParseUint_loop (decimal m) 0 = (m, None)"
proof (induction m rule: decimal.induct)
  case (1 n)
  show ?case
  proof (cases "n < 10")
    case True
    then show ?thesis
      by (subst decimal.simps)
         (simp add: byte_minus_zero_digit uint64_cutoff_def uint64_max_def)
  next
    case False
    from "1.prems" have small: "n div 10 < 2 ^ 64" by simp
    with False 1 have ih: "ParseUint_loop (decimal (n div 10)) 0 = (n div 10, None)"
      by simp
    have d: "n mod 10 < 10" by simp
    have cut: "\<not> n div 10 \<ge> uint64_cutoff"
      using "1.prems" by (simp add: uint64_cutoff_def)
    have bz: "byte_minus_zero (digit_char (n mod 10)) = n mod 10"
      using d by (rule byte_minus_zero_digit)
    have n1: "(n div 10 * 10 + n mod 10) mod 2 ^ 64 = n"
      using "1.prems" by simp
    have nl: "\<not> n < n div 10 * 10" by arith
    have nd: "\<not> 9 < n mod 10" by arith
    have nm: "\<not> uint64_max < n"
      using "1.prems" by (simp add: uint64_max_def)
    have step: "ParseUint_loop [digit_char (n mod 10)] (n div 10) = (n, None)"
      unfolding ParseUint_loop.simps Let_def bz n1
      using cut nl nd nm by (simp only: if_False simp_thms)
    show ?thesis
      using False ih step
      by (subst decimal.simps) (simp add: ParseUint_loop_snoc)
  qed
qed

lemma ParseInt_Itoa:
  assumes "- (2 ^ 63) \<le> i" and "i < 2 ^ 63"
  shows "ParseInt (Itoa i) = (i, None)"
proof (cases "i < 0")
  case True
  with assms have m: "nat (- i) < 2 ^ 64" "nat (- i) \<le> 2 ^ 63" by auto
  have "ParseUint (decimal (nat (- i))) = (nat (- i), None)"
    using m(1) by (simp add: ParseUint_def ParseUint_loop_decimal)
  with True m(2) show ?thesis
    by (simp add: ParseInt_def Itoa_def strip_sign_def is_neg_def)
next
  case False
  with assms have m: "nat i < 2 ^ 64" "nat i < 2 ^ 63" by auto
  have "ParseUint (decimal (nat i)) = (nat i, None)"
    using m(1) by (simp add: ParseUint_def ParseUint_loop_decimal)
  with False m(2) show ?thesis
    by (simp add: ParseInt_def Itoa_def)
qed

lemma Atoi_Itoa:
  assumes "- (2 ^ 63) \<le> i" and "i < 2 ^ 63"
  shows "Atoi (Itoa i) = (i, None)"
proof (cases "0 < length (Itoa i) \<and> length (Itoa i) < 19")
  case False
  then have "Atoi (Itoa i) = ParseInt (Itoa i)"
    unfolding Atoi_def by (simp only: if_False)
  then show ?thesis
    using ParseInt_Itoa [OF assms] by simp
next
  case True
  show ?thesis
  proof (cases "i < 0")
    case neg: True
    then have "Atoi (Itoa i) = (- int (nat (- i)), None)"
      using True
      by (simp add: Atoi_def Itoa_def strip_sign_def is_neg_def atoi_fast_loop_decimal)
    with neg show ?thesis by simp
  next
    case pos: False
    then have "Atoi (Itoa i) = (int (nat i), None)"
      using True by (simp add: Atoi_def Itoa_def atoi_fast_loop_decimal)
    with pos show ?thesis by simp
  qed
qed

subsection \<open>Paths and files\<close>

lemma split_on_append:
  "split_on c (a @ c # b) = split_on c a @ split_on c b"
proof (induction a)
  case Nil
  then show ?case by simp
next
  case (Cons x a)
  obtain q qs where q: "split_on c a = q # qs"
    by (cases "split_on c a") auto
  with Cons show ?case by auto
qed

lemma split_on_join_with:
  "\<forall>x\<in>set xs. c \<notin> set x \<Longrightarrow> split_on c (join_with c xs) = (if xs = [] then [[]] else xs)"
proof (induction xs rule: join_with.induct)
  case (1 sep)
  then show ?case by simp
next
  case (2 sep x)
  then show ?case by (simp add: split_on_no_sep)
next
  case (3 sep x y ys)
  then show ?case by (simp add: split_on_append_sep)
qed

lemma join_with_Nil_iff:
  "\<forall>x\<in>set xs. x \<noteq> [] \<Longrightarrow> join_with c xs = [] \<longleftrightarrow> xs = []"
  by (induction xs rule: join_with.induct) auto

lemma rooted_append [simp]: "a \<noteq> [] \<Longrightarrow> rooted (a @ b) = rooted a"
  by (cases a) (auto simp: rooted_def)

lemma clean_step_set: "set (clean_step r out c) \<subseteq> insert c (set out)"
proof -
  have "set (butlast out) \<subseteq> set out"
    by (meson in_set_butlastD subsetI)
  then show ?thesis by (auto simp: clean_step.simps)
qed

lemma clean_step_subset:
  "set (foldl (clean_step r) [] xs) \<subseteq> set xs"
proof (induction xs rule: rev_induct)
  case Nil
  then show ?case by simp
next
  case (snoc x xs)
  show ?case
    using clean_step_set [of r "foldl (clean_step r) [] xs" x] snoc by auto
qed

lemma clean_step_walk:
  assumes "r \<longrightarrow> base = []"
  shows "foldl walk base (foldl (clean_step r) [] xs) = foldl walk base xs \<and>
         (\<forall>e\<in>set (foldl (clean_step r) [] xs). e \<noteq> [] \<and> e \<noteq> ''.'' \<and> (r \<longrightarrow> e \<noteq> ''..''))"
proof (induction xs rule: rev_induct)
  case Nil
  then show ?case by simp
next
  case (snoc c xs)
  define out where "out = foldl (clean_step r) [] xs"
  define good where "good = (\<lambda>e. e \<noteq> [] \<and> e \<noteq> ''.'' \<and> (r \<longrightarrow> e \<noteq> ''..''))"
  from snoc have ih: "foldl walk base out = foldl walk base xs"
    and inv: "\<forall>e\<in>set out. good e"
    by (simp_all add: out_def good_def)
  have inv_butlast: "\<forall>e\<in>set (butlast out). good e"
    using inv by (meson in_set_butlastD)
  have step: "foldl (clean_step r) [] (xs @ [c]) = clean_step r out c"
    by (simp add: out_def)
  have wstep: "foldl walk base (xs @ [c]) = walk (foldl walk base out) c"
    by (simp add: ih)
  have goal: "foldl walk base (clean_step r out c) = walk (foldl walk base out) c \<and>
              (\<forall>e\<in>set (clean_step r out c). good e)"
  proof -
    consider (skip) "c = [] \<or> c = ''.''"
      | (pop) "c = ''..''" "out \<noteq> []" "last out \<noteq> ''..''"
      | (top) "c = ''..''" "out = [] \<or> last out = ''..''" "r"
      | (keep) "c = ''..''" "out = [] \<or> last out = ''..''" "\<not> r"
      | (push) "c \<noteq> []" "c \<noteq> ''.''" "c \<noteq> ''..''"
      by blast
    then show ?thesis
    proof cases
      case skip
      then have "clean_step r out c = out" "walk (foldl walk base out) c = foldl walk base out"
        by (auto simp: clean_step.simps walk.simps)
      then show ?thesis using inv by simp
    next
      case pop
      define o' where "o' = butlast out"
      define l where "l = last out"
      have o: "out = o' @ [l]"
        using pop(2) by (simp add: o'_def l_def)
      have "good l" using inv o by simp
      with pop(3) have l: "l \<noteq> []" "l \<noteq> ''.''" "l \<noteq> ''..''"
        by (simp_all add: good_def l_def)
      have "foldl walk base out = foldl walk base o' @ [l]"
        using l by (simp add: o walk.simps)
      then have w: "walk (foldl walk base out) c = foldl walk base o'"
        using pop(1) by (simp add: walk.simps)
      have "clean_step r out c = o'"
        using pop by (simp add: clean_step.simps o'_def)
      then show ?thesis
        using w inv_butlast by (simp add: o'_def)
    next
      case top
      have "out \<noteq> [] \<Longrightarrow> last out \<noteq> ''..''"
      proof -
        assume "out \<noteq> []"
        then have "good (last out)" using inv last_in_set by blast
        with top(3) show ?thesis by (simp add: good_def)
      qed
      with top(2) have e: "out = []" by blast
      then have "clean_step r out c = []"
        using top by (simp add: clean_step.simps)
      moreover have "walk (foldl walk base out) c = []"
        using e top assms by (simp add: walk.simps)
      ultimately show ?thesis using assms top(3) by simp
    next
      case keep
      then have "clean_step r out c = out @ [''..'']"
        by (auto simp: clean_step.simps)
      then show ?thesis
        using keep inv by (simp add: good_def)
    next
      case push
      then have "clean_step r out c = out @ [c]"
        by (simp add: clean_step.simps)
      then show ?thesis
        using push inv by (simp add: good_def)
    qed
  qed
  show ?case
    unfolding step wstep using goal by (simp add: good_def)
qed

lemma resolve_Clean:
  assumes "s \<noteq> []"
  shows "resolve w (Clean s) = resolve w s"
proof -
  define r where "r = rooted s"
  define base where "base = (if r then [] else cwd w)"
  define out where "out = clean_elems s"
  have rb: "r \<longrightarrow> base = []" by (simp add: base_def)
  have out: "out = foldl (clean_step r) [] (split_on CHR ''/'' s)"
    by (simp add: out_def clean_elems_def r_def)
  have wk: "foldl walk base out = foldl walk base (split_on CHR ''/'' s)"
    and inv: "\<forall>e\<in>set out. e \<noteq> [] \<and> e \<noteq> ''.'' \<and> (r \<longrightarrow> e \<noteq> ''..'')"
    using clean_step_walk [OF rb, of "split_on CHR ''/'' s"] by (simp_all add: out)
  have noslash: "\<forall>e\<in>set out. CHR ''/'' \<notin> set e"
    using clean_step_subset [of r "split_on CHR ''/'' s"] split_on_pieces [of _ "CHR ''/''" s]
    by (auto simp: out)
  have sp: "split_on CHR ''/'' (join_with CHR ''/'' out) = (if out = [] then [[]] else out)"
    using noslash by (rule split_on_join_with)
  have jn: "join_with CHR ''/'' out = [] \<longleftrightarrow> out = []"
    using inv by (intro join_with_Nil_iff) auto
  have rhs: "resolve w s = foldl walk base out"
    unfolding wk by (simp add: resolve_def base_def r_def)
  show ?thesis
  proof (cases r)
    case True
    then have "Clean s = CHR ''/'' # join_with CHR ''/'' out"
      using assms by (simp add: Clean_def r_def out_def)
    then have "resolve w (Clean s) = foldl walk [] (split_on CHR ''/'' (join_with CHR ''/'' out))"
      by (simp add: resolve_def rooted_def walk.simps)
    also have "\<dots> = foldl walk [] out"
      by (simp add: sp walk.simps)
    finally show ?thesis
      using True by (simp add: rhs base_def)
  next
    case False
    show ?thesis
    proof (cases "out = []")
      case True
      then have "Clean s = ''.''"
        using assms False by (simp add: Clean_def r_def [symmetric] out_def [symmetric])
      moreover have "resolve w ''.'' = cwd w"
        by (simp add: resolve_def rooted_def walk.simps)
      ultimately show ?thesis
        using True False by (simp add: rhs base_def)
    next
      case nonempty: False
      then have c: "Clean s = join_with CHR ''/'' out"
        using assms False jn by (simp add: Clean_def r_def [symmetric] out_def [symmetric])
      obtain e es where oe: "out = e # es" using nonempty by (cases out) auto
      have "e \<noteq> []" "CHR ''/'' \<notin> set e" using inv noslash oe by auto
      then have "\<not> rooted (join_with CHR ''/'' out)"
        unfolding oe by (cases e; cases es) (auto simp: rooted_def)
      then have "resolve w (Clean s) = foldl walk (cwd w) (split_on CHR ''/'' (join_with CHR ''/'' out))"
        by (simp add: resolve_def c)
      then show ?thesis
        using nonempty False by (simp add: sp rhs base_def)
    qed
  qed
qed

lemma Clean_not_Nil [simp]: "Clean s \<noteq> []"
  by (simp add: Clean_def Let_def)

lemma resolve_slash:
  assumes "a \<noteq> []"
  shows "resolve w (a @ CHR ''/'' # b) = foldl walk (resolve w a) (split_on CHR ''/'' b)"
  using assms by (simp add: resolve_def split_on_append)

lemma resolve_slash_name:
  assumes "a \<noteq> []" "plain_name f"
  shows "resolve w (a @ CHR ''/'' # f) = resolve w a @ [f]"
  using assms by (simp add: resolve_slash split_on_no_sep plain_name_def walk.simps)

lemma Join2_name:
  assumes "e \<noteq> []" "plain_name f"
  shows "Join [e, f] \<noteq> []" "resolve w (Join [e, f]) = resolve w e @ [f]"
  using assms by (simp_all add: Join_def resolve_Clean resolve_slash_name)

lemma Join3_name:
  assumes "Join [d, k] \<noteq> []" "plain_name f"
  shows "Join [d, k, f] \<noteq> []" "resolve w (Join [d, k, f]) = resolve w (Join [d, k]) @ [f]"
proof -
  have ne: "d \<noteq> [] \<or> k \<noteq> []"
    using assms(1) by (auto simp: Join_def)
  show "Join [d, k, f] \<noteq> []"
    using ne by (auto simp: Join_def)
  show "resolve w (Join [d, k, f]) = resolve w (Join [d, k]) @ [f]"
  proof (cases "d = []")
    case True
    with ne have "k \<noteq> []" by simp
    with True assms(2) show ?thesis
      by (simp add: Join_def resolve_Clean resolve_slash_name)
  next
    case False
    have "resolve w (d @ CHR ''/'' # k @ CHR ''/'' # f) = resolve w ((d @ CHR ''/'' # k) @ CHR ''/'' # f)"
      by simp
    also have "\<dots> = resolve w (d @ CHR ''/'' # k) @ [f]"
      using assms(2) by (intro resolve_slash_name) auto
    finally show ?thesis
      using False by (simp add: Join_def resolve_Clean)
  qed
qed

lemma set_butlast_prefixes: "set (butlast (prefixes p)) = {q. strict_prefix q p}"
proof (induction p rule: rev_induct)
  case Nil
  then show ?case by simp
next
  case (snoc x xs)
  have "butlast (prefixes (xs @ [x])) = prefixes xs"
    by (simp add: prefixes_snoc)
  then show ?case
    by (auto simp: strict_prefix_def prefix_snoc)
qed

lemma obstacle_None_iff:
  "obstacle w p = None \<longleftrightarrow> (\<forall>q. strict_prefix q p \<longrightarrow> files w q = Some Dir)"
proof -
  have "obstacle w p = None \<longleftrightarrow>
          List.find (\<lambda>q. files w q \<noteq> Some Dir) (butlast (prefixes p)) = None"
    by (auto simp: obstacle_def split: option.splits)
  then show ?thesis
    by (auto simp: find_None_iff set_butlast_prefixes)
qed


lemma resolve_cwd: "cwd w' = cwd w \<Longrightarrow> resolve w' s = resolve w s"
  by (simp add: resolve_def)

lemma MkdirAll_ok:
  assumes "MkdirAll w s perm = (w1, None)"
  shows "s \<noteq> []" "w1 = with_dirs w (resolve w s)"
    "\<forall>q. prefix q (resolve w s) \<longrightarrow> files w1 q = Some Dir"
proof -
  show s: "s \<noteq> []" using assms by (auto simp: MkdirAll_def)
  have nofile: "\<not> list_ex (\<lambda>q. is_file (files w q)) (prefixes (resolve w s))"
    using assms s by (auto simp: MkdirAll_def Let_def split: if_splits)
  show w1: "w1 = with_dirs w (resolve w s)"
    using assms s nofile by (simp add: MkdirAll_def Let_def with_dirs_def)
  show "\<forall>q. prefix q (resolve w s) \<longrightarrow> files w1 q = Some Dir"
  proof (intro allI impI)
    fix q assume q: "prefix q (resolve w s)"
    then have "\<not> is_file (files w q)"
      using nofile by (auto simp: list_ex_iff in_set_prefixes)
    then have "files w q = None \<or> files w q = Some Dir"
      by (cases "files w q") (auto simp: is_file_def split: node.splits)
    with q show "files w1 q = Some Dir"
      by (auto simp: w1 with_dirs_def)
  qed
qed

lemma MkdirAll_result:
  "MkdirAll w s perm = (w1, r) \<Longrightarrow> r \<noteq> None \<Longrightarrow> w1 = w"
  by (auto simp: MkdirAll_def Let_def split: if_splits)

lemma createAndWriteFile_ok:
  assumes "createAndWriteFile w s content = (w1, None)"
  shows "s \<noteq> []" "w1 = w\<lparr>files := (files w)(resolve w s \<mapsto> File content)\<rparr>"
    "files w (resolve w s) \<noteq> Some Dir" "obstacle w (resolve w s) = None"
proof -
  show s: "s \<noteq> []"
    using assms by (auto simp: createAndWriteFile_def Create_def)
  obtain w0 r where c: "Create w s = (w0, r)" by (cases "Create w s")
  with assms obtain f where r: "r = Inr f"
    by (cases r) (auto simp: createAndWriteFile_def)
  from c r s have ob: "obstacle w (resolve w s) = None"
    and nd: "files w (resolve w s) \<noteq> Some Dir"
    and w0: "w0 = w\<lparr>files := (files w)(resolve w s \<mapsto> File [])\<rparr>" and f: "f = resolve w s"
    by (auto simp: Create_def Let_def split: if_splits option.splits node.splits)
  show "files w (resolve w s) \<noteq> Some Dir" by (rule nd)
  show "obstacle w (resolve w s) = None" by (rule ob)
  show "w1 = w\<lparr>files := (files w)(resolve w s \<mapsto> File content)\<rparr>"
    using assms c r w0 f by (simp add: createAndWriteFile_def WriteString_def)
qed

lemma createAndWriteFile_can:
  assumes "s \<noteq> []" "resolve w s \<noteq> []" "obstacle w (resolve w s) = None"
    "files w (resolve w s) \<noteq> Some Dir"
  shows "createAndWriteFile w s content =
           (w\<lparr>files := (files w)(resolve w s \<mapsto> File content)\<rparr>, None)"
  using assms
  by (auto simp: createAndWriteFile_def Create_def WriteString_def Let_def
      split: option.splits node.splits)

lemma createAndWriteFile_err:
  "createAndWriteFile w s content = (w1, Some e) \<Longrightarrow> w1 = w"
  by (auto simp: createAndWriteFile_def Create_def WriteString_def Let_def
      split: option.splits node.splits if_splits sum.splits prod.splits)

lemma ReadFile_iff:
  "ReadFile w s = Inr c \<longleftrightarrow>
     s \<noteq> [] \<and> obstacle w (resolve w s) = None \<and> files w (resolve w s) = Some (File c)"
  by (auto simp: ReadFile_def Stat_def Let_def split: option.splits sum.splits node.splits)

section \<open>Lemmas about the disk cache\<close>

lemma resolve_now [simp]: "resolve (w\<lparr>now := t\<rparr>) s = resolve w s"
  by (simp add: resolve_def)

lemma obstacle_now [simp]: "obstacle (w\<lparr>now := t\<rparr>) p = obstacle w p"
  by (simp add: obstacle_def split: option.split)

lemma Stat_now [simp]: "Stat (w\<lparr>now := t\<rparr>) s = Stat w s"
  by (simp add: Stat_def Let_def split: option.split)

lemma ReadFile_now [simp]: "ReadFile (w\<lparr>now := t\<rparr>) s = ReadFile w s"
  by (simp add: ReadFile_def)

lemma DeskCache_Get_now: "DeskCache_Get (w\<lparr>now := t\<rparr>) dc key = DeskCache_Get w dc key"
  by (simp add: DeskCache_Get_def Let_def split: sum.split)

lemma DeskCache_Get_TTL: "DeskCache_Get w (dc\<lparr>TTL := ttl\<rparr>) key = DeskCache_Get w dc key"
  by (simp add: DeskCache_Get_def Let_def)

lemma DeskCache_Get_readable:
  assumes "ReadFile w (Join [DirPath dc, key, ''status'']) = Inr s"
    and "ReadFile w (Join [DirPath dc, key, ''headers'']) = Inr h"
    and "ReadFile w (Join [DirPath dc, key, ''body'']) = Inr b"
  shows "DeskCache_Get w dc key =
           Some \<lparr>StatusCode = word_of_int (fst (Atoi s)), Body = b, Headers = parse_headers h\<rparr>"
  using assms by (simp add: DeskCache_Get_def)

lemma DeskCache_Get_None_iff:
  "DeskCache_Get w dc key = None \<longleftrightarrow>
     (\<exists>e. ReadFile w (Join [DirPath dc, key, ''status'']) = Inl e) \<or>
     (\<exists>e. ReadFile w (Join [DirPath dc, key, ''headers'']) = Inl e) \<or>
     (\<exists>e. ReadFile w (Join [DirPath dc, key, ''body'']) = Inl e)"
  by (auto simp: DeskCache_Get_def Let_def split: sum.splits)

lemmas ex_defs = ex_world_def ex_cache_def ex_files_def

lemmas path_defs = Join_def Clean_def clean_elems_def rooted_def resolve_def clean_step.simps walk.simps

lemmas read_defs = ReadFile_def Stat_def obstacle_def is_file_def

lemma ex_status: "ReadFile ex_world (Join [DirPath ex_cache, ''GET-/a'', ''status'']) = Inr ''200''"
  by (simp add: ex_defs path_defs read_defs)

lemma ex_headers: "ReadFile ex_world (Join [DirPath ex_cache, ''GET-/a'', ''headers'']) =
     Inr ''Content-Type,text/plain\<newline>broken line\<newline>X-A,1,2\<newline>''"
  by (simp add: ex_defs path_defs read_defs)

lemma ex_body: "ReadFile ex_world (Join [DirPath ex_cache, ''GET-/a'', ''body'']) = Inr ''hello''"
  by (simp add: ex_defs path_defs read_defs)

lemma ParseUint_loop_range:
  "snd (ParseUint_loop s n) = Some ErrRange \<Longrightarrow> fst (ParseUint_loop s n) = uint64_max"
  by (induction s arbitrary: n) (auto simp: Let_def split: if_splits)

lemma Atoi_error_value:
  assumes "snd (Atoi s) = Some err"
  shows "fst (Atoi s) =
           (case err of ErrSyntax \<Rightarrow> 0
            | ErrRange \<Rightarrow> if is_neg s then - (2 ^ 63) else 2 ^ 63 - 1)"
proof (cases "0 < length s \<and> length s < 19")
  case True
  with assms show ?thesis
    by (auto simp: Atoi_def split: if_splits option.splits)
next
  case False
  then have eq: "Atoi s = ParseInt s"
    unfolding Atoi_def by (simp only: if_False)
  obtain un e where pu: "ParseUint (strip_sign s) = (un, e)"
    by (cases "ParseUint (strip_sign s)")
  have rng: "e = Some ErrRange \<Longrightarrow> un = uint64_max"
    using pu ParseUint_loop_range [of "strip_sign s" 0]
    by (auto simp: ParseUint_def split: if_splits)
  show ?thesis
    using assms rng unfolding eq ParseInt_def pu
    by (cases err; cases e) (auto simp: uint64_max_def split: if_splits)
qed

lemma tl_split_on: "tl (split_on c l) \<noteq> [] \<longleftrightarrow> c \<in> set l"
  by (induction l) (auto split: list.splits)

lemma foldl_Header_Add:
  "foldl (\<lambda>h' val. Header_Add h' key val) h vals =
     (if vals = [] then h
      else h(CanonicalMIMEHeaderKey key \<mapsto>
               (case h (CanonicalMIMEHeaderKey key) of None \<Rightarrow> [] | Some vv \<Rightarrow> vv) @ vals))"
proof (induction vals arbitrary: h)
  case Nil
  then show ?case by simp
next
  case (Cons v vals)
  show ?case
    by (simp add: Cons.IH) (auto simp: Header_Add_def Let_def fun_eq_iff)
qed

lemma add_line_eq:
  "add_line h line =
     (if header_record line
      then h(CanonicalMIMEHeaderKey (line_name line) \<mapsto>
               (case h (CanonicalMIMEHeaderKey (line_name line)) of None \<Rightarrow> [] | Some vv \<Rightarrow> vv)
               @ line_values line)
      else h)"
proof -
  obtain key vals where sp: "split_on CHR '','' line = key # vals"
    by (cases "split_on CHR '','' line") auto
  have "header_record line \<longleftrightarrow> vals \<noteq> []"
    using tl_split_on [of "CHR '',''" line] sp by (simp add: header_record_def)
  then show ?thesis
    by (cases "vals = []")
       (simp_all add: add_line_def sp foldl_Header_Add line_name_def line_values_def)
qed

lemma add_line_malformed: "\<not> header_record line \<Longrightarrow> add_line h line = h"
  by (simp add: add_line_eq)

lemma foldl_add_line_filter:
  "foldl add_line h (filter header_record ls) = foldl add_line h ls"
  by (induction ls arbitrary: h) (auto simp: add_line_malformed)

lemma foldl_add_line_collect:
  "foldl add_line h ls name =
     (case filter (\<lambda>l. CanonicalMIMEHeaderKey (line_name l) = name) (filter header_record ls) of
        [] \<Rightarrow> h name
      | l # ls' \<Rightarrow>
          Some ((case h name of None \<Rightarrow> [] | Some vv \<Rightarrow> vv) @ concat (map line_values (l # ls'))))"
proof (induction ls arbitrary: h)
  case Nil
  then show ?case by simp
next
  case (Cons l ls)
  show ?case
    by (simp add: Cons.IH) (auto simp: add_line_eq split: list.splits)
qed

lemma parse_headers_collected:
  "parse_headers cont name = collected (filter header_record (split_on (CHR 0x0A) cont)) name"
  by (simp add: parse_headers_def collected_def foldl_add_line_collect split: list.splits)

lemmas atoi_defs = Atoi_def ParseInt_def ParseUint_def strip_sign_def is_neg_def byte_minus_zero_def
  uint64_cutoff_def uint64_max_def Let_def

subsection \<open>Storing an entry\<close>

lemma foldl_comma:
  "foldl (\<lambda>str v. str @ CHR '','' # v) a vv = a @ concat (map (\<lambda>v. CHR '','' # v) vv)"
  by (induction vv arbitrary: a) auto

lemma join_with_Cons: "join_with c (k # vv) = k @ concat (map (\<lambda>v. c # v) vv)"
  by (induction vv arbitrary: k) auto

lemma headers_string_foldl:
  "foldl (\<lambda>headersStr (k, vv).
            foldl (\<lambda>str v. str @ CHR '','' # v) (headersStr @ k) vv @ [CHR 0x0A])
      acc kvs = acc @ concat (map header_line kvs)"
  by (induction kvs arbitrary: acc) (auto simp: foldl_comma header_line_def join_with_Cons)

lemma headers_string_eq: "headers_string kvs = concat (map header_line kvs)"
  by (simp add: headers_string_def headers_string_foldl)

lemma set_join_with: "set (join_with c (x # xs)) \<subseteq> insert c (set x \<union> \<Union> (set ` set xs))"
  by (auto simp: join_with_Cons)

lemma split_lines:
  assumes "\<forall>kv\<in>set kvs. CHR 0x0A \<notin> set (join_with CHR '','' (fst kv # snd kv))"
  shows "split_on (CHR 0x0A) (concat (map header_line kvs)) =
           map (\<lambda>kv. join_with CHR '','' (fst kv # snd kv)) kvs @ [[]]"
  using assms by (induction kvs) (auto simp: header_line_def split_on_append_sep)

lemma add_line_record:
  assumes "CHR '','' \<notin> set k" "\<forall>v\<in>set vv. CHR '','' \<notin> set v" "vv \<noteq> []"
    "CanonicalMIMEHeaderKey k = k"
  shows "add_line h (join_with CHR '','' (k # vv)) =
           h(k \<mapsto> (case h k of None \<Rightarrow> [] | Some old \<Rightarrow> old) @ vv)"
proof -
  have "split_on CHR '','' (join_with CHR '','' (k # vv)) = k # vv"
    using assms(1,2) by (subst split_on_join_with) auto
  then show ?thesis
    using assms(3,4) by (simp add: add_line_def foldl_Header_Add)
qed

lemma foldl_add_line_records:
  assumes "wire_safe kvs" "distinct (map fst kvs)" "\<forall>kv\<in>set kvs. h (fst kv) = None"
  shows "foldl add_line h (map (\<lambda>kv. join_with CHR '','' (fst kv # snd kv)) kvs) = h ++ map_of kvs"
  using assms
proof (induction kvs arbitrary: h)
  case Nil
  then show ?case by simp
next
  case (Cons kv kvs)
  obtain k vv where kv: "kv = (k, vv)" by (cases kv)
  from Cons.prems(1) have safe: "CHR '','' \<notin> set k" "\<forall>v\<in>set vv. CHR '','' \<notin> set v" "vv \<noteq> []"
    "CanonicalMIMEHeaderKey k = k" and rest: "wire_safe kvs"
    by (auto simp: wire_safe_def kv plain_text_def list_all_iff)
  have hk: "h k = None" using Cons.prems(3) by (simp add: kv)
  have step: "add_line h (join_with CHR '','' (k # vv)) = h(k \<mapsto> vv)"
    using add_line_record [OF safe, of h] hk by simp
  have fresh: "\<forall>kv\<in>set kvs. (h(k \<mapsto> vv)) (fst kv) = None"
    using Cons.prems(2,3) by (auto simp: kv)
  have knot: "k \<notin> dom (map_of kvs)"
    using Cons.prems(2) by (auto simp: kv dom_map_of_conv_image_fst)
  have "foldl add_line (h(k \<mapsto> vv)) (map (\<lambda>kv. join_with CHR '','' (fst kv # snd kv)) kvs) =
          h(k \<mapsto> vv) ++ map_of kvs"
    using Cons.prems(2) by (intro Cons.IH rest fresh) (simp add: kv)
  also have "\<dots> = h ++ map_of (kv # kvs)"
  proof (rule ext)
    fix x
    show "(h(k \<mapsto> vv) ++ map_of kvs) x = (h ++ map_of (kv # kvs)) x"
      using knot by (auto simp: kv map_add_def domIff split: option.splits)
  qed
  finally have "foldl add_line (h(k \<mapsto> vv))
      (map (\<lambda>kv. join_with CHR '','' (fst kv # snd kv)) kvs) = h ++ map_of (kv # kvs)" .
  moreover have "foldl add_line h (map (\<lambda>kv. join_with CHR '','' (fst kv # snd kv)) (kv # kvs)) =
      foldl add_line (h(k \<mapsto> vv)) (map (\<lambda>kv. join_with CHR '','' (fst kv # snd kv)) kvs)"
    by (simp add: kv step)
  ultimately show ?case by (simp only:)
qed

lemma add_line_empty [simp]: "add_line h [] = h"
  by (simp add: add_line_def)

lemma parse_headers_string:
  assumes "wire_safe kvs" "distinct (map fst kvs)"
  shows "parse_headers (headers_string kvs) = map_of kvs"
proof -
  have nl: "\<forall>kv\<in>set kvs. CHR 0x0A \<notin> set (join_with CHR '','' (fst kv # snd kv))"
  proof
    fix kv assume "kv \<in> set kvs"
    then have "plain_text (fst kv)" "\<forall>v\<in>set (snd kv). plain_text v"
      using assms(1) by (auto simp: wire_safe_def list_all_iff)
    then show "CHR 0x0A \<notin> set (join_with CHR '','' (fst kv # snd kv))"
      using set_join_with [of "CHR '',''" "fst kv" "snd kv"]
      by (auto simp: plain_text_def)
  qed
  have "parse_headers (headers_string kvs) =
          foldl add_line Map.empty (map (\<lambda>kv. join_with CHR '','' (fst kv # snd kv)) kvs)"
    by (simp add: parse_headers_def headers_string_eq split_lines [OF nl])
  also have "\<dots> = Map.empty ++ map_of kvs"
    using assms by (intro foldl_add_line_records) auto
  finally show ?thesis by simp
qed

lemma map_of_range_of:
  "map_of (range_of h order) x = (if x \<in> set order then h x else None)"
  by (induction order) (auto simp: range_of_def map_filter_simps split: option.splits)

lemma fst_range_of: "map fst (range_of h order) = filter (\<lambda>k. h k \<noteq> None) order"
  by (induction order) (auto simp: range_of_def map_filter_simps split: option.splits)

lemma range_of_order:
  assumes "range_order h order"
  shows "map_of (range_of h order) = h" "map fst (range_of h order) = order"
    "distinct (map fst (range_of h order))"
proof -
  have dom: "set order = dom h" and d: "distinct order"
    using assms by (auto simp: range_order_def)
  show "map_of (range_of h order) = h"
    using dom by (auto simp: map_of_range_of fun_eq_iff)
  show "map fst (range_of h order) = order"
    using dom by (auto simp: fst_range_of filter_id_conv)
  then show "distinct (map fst (range_of h order))"
    using d by simp
qed

lemma status_roundtrip: "word_of_int (fst (Atoi (Itoa (sint (sc :: 64 word))))) = sc"
proof -
  have "- (2 ^ 63) \<le> sint sc" "sint sc < 2 ^ 63"
    using sint_ge [of sc] sint_lt [of sc] by simp_all
  then show ?thesis
    by (simp add: Atoi_Itoa)
qed

lemma plain_names [simp]: "plain_name ''status''" "plain_name ''headers''" "plain_name ''body''"
  by (simp_all add: plain_name_def)

lemma storeEntryData_ok:
  assumes "storeEntryData w e ce order = (w', None)" and "e \<noteq> []"
  shows "w' = w\<lparr>files := (files w)
            (resolve w e @ [''status''] \<mapsto> File (Itoa (sint (StatusCode ce))),
             resolve w e @ [''headers''] \<mapsto> File (headers_string (range_of (Headers ce) order)),
             resolve w e @ [''body''] \<mapsto> File (Body ce))\<rparr>"
    and "obstacle w (resolve w e @ [''status'']) = None"
proof -
  let ?st = "Itoa (sint (StatusCode ce))"
  let ?hs = "headers_string (range_of (Headers ce) order)"
  obtain w1 r1 where c1: "createAndWriteFile w (Join [e, ''status'']) ?st = (w1, r1)"
    by (cases "createAndWriteFile w (Join [e, ''status'']) ?st")
  obtain w2 r2 where c2: "createAndWriteFile w1 (Join [e, ''headers'']) ?hs = (w2, r2)"
    by (cases "createAndWriteFile w1 (Join [e, ''headers'']) ?hs")
  obtain w3 r3 where c3: "createAndWriteFile w2 (Join [e, ''body'']) (Body ce) = (w3, r3)"
    by (cases "createAndWriteFile w2 (Join [e, ''body'']) (Body ce)")
  have r1: "r1 = None"
    using assms(1) c1 by (cases r1) (auto simp: storeEntryData_def Let_def)
  have r2: "r2 = None"
    using assms(1) c1 c2 r1 by (cases r2) (auto simp: storeEntryData_def Let_def)
  have r3: "r3 = None" and w3: "w' = w3"
    using assms(1) c1 c2 c3 r1 r2 by (cases r3; auto simp: storeEntryData_def Let_def)+
  have p1: "resolve w (Join [e, ''status'']) = resolve w e @ [''status'']"
    using assms(2) by (simp add: Join2_name)
  have w1: "w1 = w\<lparr>files := (files w)(resolve w e @ [''status''] \<mapsto> File ?st)\<rparr>"
    using createAndWriteFile_ok(2) [OF c1 [unfolded r1]] by (simp add: p1)
  show "obstacle w (resolve w e @ [''status'']) = None"
    using createAndWriteFile_ok(4) [OF c1 [unfolded r1]] by (simp add: p1)
  have cw1: "cwd w1 = cwd w" by (simp add: w1)
  have p2: "resolve w1 (Join [e, ''headers'']) = resolve w e @ [''headers'']"
    using assms(2) by (simp add: resolve_cwd [OF cw1] Join2_name)
  have w2: "w2 = w1\<lparr>files := (files w1)(resolve w e @ [''headers''] \<mapsto> File ?hs)\<rparr>"
    using createAndWriteFile_ok(2) [OF c2 [unfolded r2]] by (simp add: p2)
  have cw2: "cwd w2 = cwd w" by (simp add: w2 w1)
  have p3: "resolve w2 (Join [e, ''body'']) = resolve w e @ [''body'']"
    using assms(2) by (simp add: resolve_cwd [OF cw2] Join2_name)
  have "w3 = w2\<lparr>files := (files w2)(resolve w e @ [''body''] \<mapsto> File (Body ce))\<rparr>"
    using createAndWriteFile_ok(2) [OF c3 [unfolded r3]] by (simp add: p3)
  then show "w' = w\<lparr>files := (files w)
            (resolve w e @ [''status''] \<mapsto> File ?st,
             resolve w e @ [''headers''] \<mapsto> File ?hs,
             resolve w e @ [''body''] \<mapsto> File (Body ce))\<rparr>"
    by (simp add: w3 w2 w1)
qed

lemma DeskCache_Set_ok:
  assumes "DeskCache_Set w dc key val order = (w', Returned None)"
  shows "Join [DirPath dc, key] \<noteq> []"
    and "w' = (with_dirs w (resolve w (Join [DirPath dc, key])))\<lparr>files :=
           (files (with_dirs w (resolve w (Join [DirPath dc, key]))))
            (resolve w (Join [DirPath dc, key]) @ [''status''] \<mapsto>
               File (Itoa (sint (StatusCode val))),
             resolve w (Join [DirPath dc, key]) @ [''headers''] \<mapsto>
               File (headers_string (range_of (Headers val) order)),
             resolve w (Join [DirPath dc, key]) @ [''body''] \<mapsto> File (Body val))\<rparr>"
    and "\<forall>q. prefix q (resolve w (Join [DirPath dc, key])) \<longrightarrow>
           files (with_dirs w (resolve w (Join [DirPath dc, key]))) q = Some Dir"
proof -
  let ?e = "Join [DirPath dc, key]"
  obtain w1 r1 where m: "MkdirAll w ?e 493 = (w1, r1)"
    by (cases "MkdirAll w ?e 493")
  have r1: "r1 = None"
    using assms m by (cases r1) (auto simp: DeskCache_Set_def Let_def)
  have st: "storeEntryData w1 ?e val order = (w', None)"
    using assms m r1 by (auto simp: DeskCache_Set_def Let_def split: prod.splits)
  note mk = MkdirAll_ok [OF m [unfolded r1]]
  show ne: "?e \<noteq> []" by (rule mk(1))
  show "\<forall>q. prefix q (resolve w ?e) \<longrightarrow> files (with_dirs w (resolve w ?e)) q = Some Dir"
    using mk(2,3) by simp
  have "cwd w1 = cwd w"
    by (simp add: mk(2) with_dirs_def)
  then have "resolve w1 ?e = resolve w ?e"
    by (rule resolve_cwd)
  then show "w' = (with_dirs w (resolve w ?e))\<lparr>files :=
           (files (with_dirs w (resolve w ?e)))
            (resolve w ?e @ [''status''] \<mapsto> File (Itoa (sint (StatusCode val))),
             resolve w ?e @ [''headers''] \<mapsto> File (headers_string (range_of (Headers val) order)),
             resolve w ?e @ [''body''] \<mapsto> File (Body val))\<rparr>"
    using storeEntryData_ok(1) [OF st ne] by (simp add: mk(2))
qed

lemma entry_file_readable:
  assumes dirs: "\<forall>q. prefix q p \<longrightarrow> fs q = Some Dir"
    and fs: "files w = fs(p @ [''status''] \<mapsto> File a, p @ [''headers''] \<mapsto> File b,
                          p @ [''body''] \<mapsto> File c)"
    and s: "s \<noteq> []" "resolve w s = p @ [f]"
  shows "ReadFile w s = (case files w (p @ [f]) of Some (File x) \<Rightarrow> Inr x
                         | Some Dir \<Rightarrow> Inl EISDIR | None \<Rightarrow> Inl ENOENT)"
proof -
  have "obstacle w (p @ [f]) = None"
    unfolding obstacle_None_iff
  proof (intro allI impI)
    fix q assume "strict_prefix q (p @ [f])"
    then have q: "prefix q p" by (auto simp: strict_prefix_def prefix_snoc)
    then have "q \<noteq> p @ [''status'']" "q \<noteq> p @ [''headers'']" "q \<noteq> p @ [''body'']"
      by (auto simp: prefix_def)
    then show "files w q = Some Dir"
      using q dirs by (simp add: fs)
  qed
  then show ?thesis
    using s by (simp add: ReadFile_def Stat_def split: option.splits node.splits)
qed

lemmas set_defs = DeskCache_Set_def MkdirAll_def with_dirs_def is_file_def storeEntryData_def createAndWriteFile_def
  Create_def WriteString_def obstacle_def Let_def

lemma ex_set_ok: "snd (DeskCache_Set ex_empty ex_cache ''GET-/a'' ex_entry ex_order) = Returned None"
  by (simp add: set_defs path_defs ex_empty_def ex_cache_def)

lemma ex_set: "DeskCache_Set ex_empty ex_cache ''GET-/a'' ex_entry ex_order = (ex_stored, Returned None)"
  using ex_set_ok by (simp add: ex_stored_def prod_eq_iff)

lemma ex_range_order: "range_order (Headers ex_entry) ex_order"
  by (auto simp: range_order_def ex_entry_def ex_order_def)

lemma ex_dated_set_ok: "snd (DeskCache_Set ex_empty ex_cache ''GET-/a'' ex_dated [''Date'']) = Returned None"
  by (simp add: set_defs path_defs ex_empty_def ex_cache_def)

lemma DeskCache_Set_reads:
  assumes "DeskCache_Set w dc key val order = (w', Returned None)"
  shows "ReadFile w' (Join [DirPath dc, key, ''status'']) = Inr (Itoa (sint (StatusCode val)))"
    and "ReadFile w' (Join [DirPath dc, key, ''headers'']) =
           Inr (headers_string (range_of (Headers val) order))"
    and "ReadFile w' (Join [DirPath dc, key, ''body'']) = Inr (Body val)"
proof -
  let ?p = "resolve w (Join [DirPath dc, key])"
  note ok = DeskCache_Set_ok [OF assms]
  have cw: "cwd w' = cwd w"
    by (subst ok(2)) (simp add: with_dirs_def)
  have fs: "files w' = (files (with_dirs w ?p))
            (?p @ [''status''] \<mapsto> File (Itoa (sint (StatusCode val))),
             ?p @ [''headers''] \<mapsto> File (headers_string (range_of (Headers val) order)),
             ?p @ [''body''] \<mapsto> File (Body val))"
    by (subst ok(2)) simp
  have r: "\<And>f. plain_name f \<Longrightarrow> Join [DirPath dc, key, f] \<noteq> [] \<and>
             resolve w' (Join [DirPath dc, key, f]) = ?p @ [f]"
    using Join3_name [OF ok(1)] by (simp add: resolve_cwd [OF cw])
  show "ReadFile w' (Join [DirPath dc, key, ''status'']) = Inr (Itoa (sint (StatusCode val)))"
    using entry_file_readable [OF ok(3) fs, of "Join [DirPath dc, key, ''status'']" "''status''"]
      r [of "''status''"] by (simp add: fs)
  show "ReadFile w' (Join [DirPath dc, key, ''headers'']) =
           Inr (headers_string (range_of (Headers val) order))"
    using entry_file_readable [OF ok(3) fs, of "Join [DirPath dc, key, ''headers'']" "''headers''"]
      r [of "''headers''"] by (simp add: fs)
  show "ReadFile w' (Join [DirPath dc, key, ''body'']) = Inr (Body val)"
    using entry_file_readable [OF ok(3) fs, of "Join [DirPath dc, key, ''body'']" "''body''"]
      r [of "''body''"] by (simp add: fs)
qed

lemma DeskCache_Set_dir:
  assumes "DeskCache_Set w dc key val order = (w', Returned None)"
  shows "Stat w' (Join [DirPath dc, key]) = Inr Dir"
proof -
  let ?p = "resolve w (Join [DirPath dc, key])"
  note ok = DeskCache_Set_ok [OF assms]
  have cw: "cwd w' = cwd w"
    by (subst ok(2)) (simp add: with_dirs_def)
  have fs: "\<And>q. prefix q ?p \<Longrightarrow> files w' q = Some Dir"
  proof -
    fix q assume q: "prefix q ?p"
    then have "q \<noteq> ?p @ [''status'']" "q \<noteq> ?p @ [''headers'']" "q \<noteq> ?p @ [''body'']"
      by (auto simp: prefix_def)
    then show "files w' q = Some Dir"
      using ok(3) q by (subst ok(2)) simp
  qed
  have "obstacle w' ?p = None"
    unfolding obstacle_None_iff using fs by (auto simp: strict_prefix_def)
  then show ?thesis
    using ok(1) fs [of ?p] by (simp add: Stat_def resolve_cwd [OF cw])
qed

lemma DeskCache_Set_frame:
  assumes "DeskCache_Set w dc key val order = (w', Returned None)"
    and "q \<noteq> resolve w (Join [DirPath dc, key]) @ [''status'']"
    and "q \<noteq> resolve w (Join [DirPath dc, key]) @ [''headers'']"
    and "q \<noteq> resolve w (Join [DirPath dc, key]) @ [''body'']"
  shows "files w' q = files w q \<or>
         (files w q = None \<and> files w' q = Some Dir \<and> prefix q (resolve w (Join [DirPath dc, key])))"
  using assms(2-4) by (subst (1 2) DeskCache_Set_ok(2) [OF assms(1)]) (simp add: with_dirs_def)

lemma ex_wire_safe: "wire_safe (range_of (Headers ex_entry) ex_order)"
  by (simp add: wire_safe_def plain_text_def ex_entry_def ex_order_def range_of_def map_filter_simps
      CanonicalMIMEHeaderKey_def validHeaderFieldByte_def lower_letters_def upper_letters_def
      to_upper_def to_lower_def Let_def)

lemma ex_dated_set:
  "DeskCache_Set ex_empty ex_cache ''GET-/a'' ex_dated [''Date''] = (ex_dated_stored, Returned None)"
  using ex_dated_set_ok by (simp add: ex_dated_stored_def prod_eq_iff)

lemma ex_dated_get:
  "DeskCache_Get ex_dated_stored ex_cache ''GET-/a'' =
     Some \<lparr>StatusCode = 200, Body = ''hello'', Headers = [''Date'' \<mapsto> [''Mon'', '' 02 Jan'']]\<rparr>"
proof -
  have h: "parse_headers ''Date,Mon, 02 Jan\<newline>'' = [''Date'' \<mapsto> [''Mon'', '' 02 Jan'']]"
    by (simp add: parse_headers_def add_line_def Header_Add_def CanonicalMIMEHeaderKey_def
        validHeaderFieldByte_def lower_letters_def upper_letters_def to_upper_def to_lower_def
        Let_def)
  have s: "headers_string (range_of (Headers ex_dated) [''Date'']) = ''Date,Mon, 02 Jan\<newline>''"
    by (simp add: headers_string_def range_of_def map_filter_simps ex_dated_def)
  show ?thesis
    using DeskCache_Get_readable [OF DeskCache_Set_reads [OF ex_dated_set]]
    by (simp add: status_roundtrip s h) (simp add: ex_dated_def)
qed

subsection \<open>Clearing the cache and setting it up\<close>

lemma Stat_Inr_iff:
  "Stat w s = Inr n \<longleftrightarrow> s \<noteq> [] \<and> obstacle w (resolve w s) = None \<and> files w (resolve w s) = Some n"
  by (auto simp: Stat_def Let_def split: option.splits)

lemma Stat_present: "Stat w s = Inr n \<Longrightarrow> present w (resolve w s)"
  by (simp add: Stat_Inr_iff present_def)




lemma world_files_id: "w\<lparr>files := files w\<rparr> = w"
  by simp









lemma DeskCache_Set_Get:
  assumes "DeskCache_Set w dc key val order = (w', Returned None)"
    and "range_order (Headers val) order"
    and "wire_safe (range_of (Headers val) order)"
  shows "DeskCache_Get w' dc key = Some val"
proof -
  have "parse_headers (headers_string (range_of (Headers val) order)) = Headers val"
    using parse_headers_string [OF assms(3)] range_of_order(1,3) [OF assms(2)] by simp
  then show ?thesis
    using DeskCache_Get_readable [OF DeskCache_Set_reads [OF assms(1)]]
    by (simp add: status_roundtrip)
qed

lemma with_dirs_id:
  assumes "\<forall>q. prefix q p \<longrightarrow> files w q \<noteq> None"
  shows "with_dirs w p = w"
proof -
  have "(\<lambda>q. if prefix q p \<and> files w q = None then Some Dir else files w q) = files w"
    using assms by (auto simp: fun_eq_iff)
  then show ?thesis by (simp add: with_dirs_def)
qed

lemma MkdirAll_existing:
  assumes "Stat w s = Inr Dir"
  shows "MkdirAll w s perm = (w, None)"
proof -
  from assms have s: "s \<noteq> []" and ob: "obstacle w (resolve w s) = None"
    and d: "files w (resolve w s) = Some Dir"
    by (simp_all add: Stat_Inr_iff)
  have dirs: "\<forall>q. prefix q (resolve w s) \<longrightarrow> files w q = Some Dir"
    using ob d by (auto simp: obstacle_None_iff strict_prefix_def)
  then have "\<not> list_ex (\<lambda>q. is_file (files w q)) (prefixes (resolve w s))"
    by (auto simp: list_ex_iff in_set_prefixes is_file_def)
  moreover have "with_dirs w (resolve w s) = w"
    using dirs by (intro with_dirs_id) auto
  ultimately show ?thesis
    using s by (simp add: MkdirAll_def)
qed

lemma NewDeskCache_eq:
  "NewDeskCache w d port ttl =
     (w, case Stat w d of
           Inl err \<Rightarrow> Inl (if err = ENOENT then DirNotExist else CouldNotAccess err)
         | Inr (File c) \<Rightarrow> Inl NotADirectory
         | Inr Dir \<Rightarrow> Inr \<lparr>DirPath = d, TTL = ttl\<rparr>)"
proof (cases "Stat w d")
  case (Inl err)
  then show ?thesis by (simp add: NewDeskCache_def validateDirPath_def)
next
  case (Inr n)
  show ?thesis
  proof (cases n)
    case (File c)
    with Inr show ?thesis by (simp add: NewDeskCache_def validateDirPath_def)
  next
    case Dir
    with Inr show ?thesis
      using MkdirAll_existing [of w d 2] by (simp add: NewDeskCache_def validateDirPath_def)
  qed
qed






subsection \<open>What storing an entry leaves in place\<close>

lemma keeps_refl [simp]: "keeps w w"
  by (simp add: keeps_def)

lemma keepsD:
  assumes "keeps w w'"
  shows "cwd w' = cwd w"
    and "files w q = Some Dir \<Longrightarrow> files w' q = Some Dir"
    and "files w q = Some (File c) \<Longrightarrow> \<exists>c'. files w' q = Some (File c')"
  using assms by (simp_all add: keeps_def)

lemma keeps_trans:
  assumes "keeps w w1" "keeps w1 w2"
  shows "keeps w w2"
  unfolding keeps_def
proof (intro conjI allI impI)
  show "cwd w2 = cwd w"
    using keepsD(1) [OF assms(1)] keepsD(1) [OF assms(2)] by simp
next
  fix q assume "files w q = Some Dir"
  then show "files w2 q = Some Dir"
    using keepsD(2) [OF assms(1)] keepsD(2) [OF assms(2)] by simp
next
  fix q c assume "files w q = Some (File c)"
  then obtain c1 where "files w1 q = Some (File c1)"
    using keepsD(3) [OF assms(1)] by blast
  then show "\<exists>c'. files w2 q = Some (File c')"
    using keepsD(3) [OF assms(2)] by blast
qed

lemma MkdirAll_keeps: "keeps w (fst (MkdirAll w s perm))"
  by (auto simp: MkdirAll_def with_dirs_def keeps_def Let_def)

lemma createAndWriteFile_keeps: "keeps w (fst (createAndWriteFile w s content))"
proof (cases "createAndWriteFile w s content")
  case (Pair w1 r)
  show ?thesis
  proof (cases r)
    case None
    with Pair show ?thesis
      using createAndWriteFile_ok(2,3) [of w s content w1]
      by (auto simp: keeps_def)
  next
    case (Some e)
    with Pair show ?thesis
      using createAndWriteFile_err [of w s content w1 e] by simp
  qed
qed

lemma storeEntryData_keeps: "keeps w (fst (storeEntryData w e ce order))"
proof -
  let ?c1 = "createAndWriteFile w (Join [e, ''status'']) (Itoa (sint (StatusCode ce)))"
  let ?c2 = "createAndWriteFile (fst ?c1) (Join [e, ''headers''])
               (headers_string (range_of (Headers ce) order))"
  let ?c3 = "createAndWriteFile (fst ?c2) (Join [e, ''body'']) (Body ce)"
  have k1: "keeps w (fst ?c1)" by (rule createAndWriteFile_keeps)
  have k2: "keeps w (fst ?c2)"
    using k1 createAndWriteFile_keeps by (rule keeps_trans)
  have k3: "keeps w (fst ?c3)"
    using k2 createAndWriteFile_keeps by (rule keeps_trans)
  have "fst (storeEntryData w e ce order) \<in> {fst ?c1, fst ?c2, fst ?c3}"
    by (auto simp: storeEntryData_def Let_def split: prod.splits option.splits)
  with k1 k2 k3 show ?thesis by auto
qed

lemma DeskCache_Set_keeps: "keeps w (fst (DeskCache_Set w dc key val order))"
proof -
  obtain w1 r1 where m: "MkdirAll w (Join [DirPath dc, key]) 493 = (w1, r1)"
    by (cases "MkdirAll w (Join [DirPath dc, key]) 493")
  have k1: "keeps w w1"
    using MkdirAll_keeps [of w "Join [DirPath dc, key]" 493] by (simp add: m)
  show ?thesis
  proof (cases r1)
    case (Some err)
    then show ?thesis
      using k1 by (simp add: DeskCache_Set_def m)
  next
    case None
    obtain w2 r2 where st: "storeEntryData w1 (Join [DirPath dc, key]) val order = (w2, r2)"
      by (cases "storeEntryData w1 (Join [DirPath dc, key]) val order")
    have "keeps w1 w2"
      using storeEntryData_keeps [of w1 "Join [DirPath dc, key]" val order] by (simp add: st)
    with k1 have "keeps w w2" by (rule keeps_trans)
    then show ?thesis
      by (simp add: DeskCache_Set_def m None st)
  qed
qed

lemma keeps_ReadFile:
  assumes "keeps w w'" "ReadFile w s = Inr c"
  shows "\<exists>c'. ReadFile w' s = Inr c'"
proof -
  from assms(2) have s: "s \<noteq> []" and ob: "obstacle w (resolve w s) = None"
    and f: "files w (resolve w s) = Some (File c)"
    by (simp_all add: ReadFile_iff)
  have r: "resolve w' s = resolve w s"
    using keepsD(1) [OF assms(1)] by (rule resolve_cwd)
  have "\<forall>q. strict_prefix q (resolve w s) \<longrightarrow> files w' q = Some Dir"
  proof (intro allI impI)
    fix q assume "strict_prefix q (resolve w s)"
    then have "files w q = Some Dir"
      using ob by (simp add: obstacle_None_iff)
    then show "files w' q = Some Dir"
      by (rule keepsD(2) [OF assms(1)])
  qed
  then have o': "obstacle w' (resolve w s) = None"
    by (simp add: obstacle_None_iff)
  obtain c' where "files w' (resolve w s) = Some (File c')"
    using keepsD(3) [OF assms(1) f] by blast
  then have "ReadFile w' s = Inr c'"
    using s r o' by (simp add: ReadFile_iff)
  then show ?thesis ..
qed

lemma ReadFile_cases: "(\<exists>e. ReadFile w s = Inl e) \<or> (\<exists>c. ReadFile w s = Inr c)"
  by (cases "ReadFile w s") auto

lemma keeps_found:
  assumes "keeps w w'" "DeskCache_Get w dc key \<noteq> None"
  shows "DeskCache_Get w' dc key \<noteq> None"
proof -
  have none: "\<not> ((\<exists>e. ReadFile w (Join [DirPath dc, key, ''status'']) = Inl e) \<or>
     (\<exists>e. ReadFile w (Join [DirPath dc, key, ''headers'']) = Inl e) \<or>
     (\<exists>e. ReadFile w (Join [DirPath dc, key, ''body'']) = Inl e))"
    using assms(2) by (simp add: DeskCache_Get_None_iff)
  obtain s where s: "ReadFile w (Join [DirPath dc, key, ''status'']) = Inr s"
    using none ReadFile_cases [of w "Join [DirPath dc, key, ''status'']"] by blast
  obtain h where h: "ReadFile w (Join [DirPath dc, key, ''headers'']) = Inr h"
    using none ReadFile_cases [of w "Join [DirPath dc, key, ''headers'']"] by blast
  obtain b where b: "ReadFile w (Join [DirPath dc, key, ''body'']) = Inr b"
    using none ReadFile_cases [of w "Join [DirPath dc, key, ''body'']"] by blast
  obtain s' where s': "ReadFile w' (Join [DirPath dc, key, ''status'']) = Inr s'"
    using keeps_ReadFile [OF assms(1) s] by blast
  obtain h' where h': "ReadFile w' (Join [DirPath dc, key, ''headers'']) = Inr h'"
    using keeps_ReadFile [OF assms(1) h] by blast
  obtain b' where b': "ReadFile w' (Join [DirPath dc, key, ''body'']) = Inr b'"
    using keeps_ReadFile [OF assms(1) b] by blast
  show ?thesis
    by (simp add: DeskCache_Get_readable [OF s' h' b'])
qed

section \<open>Lemmas about the handler\<close>


lemmas canon_defs = CanonicalMIMEHeaderKey_def validHeaderFieldByte_def lower_letters_def
  upper_letters_def to_upper_def to_lower_def Let_def

lemma canon_names [simp]:
  "CanonicalMIMEHeaderKey ''X-Cache'' = ''X-Cache''"
  "CanonicalMIMEHeaderKey ''Content-Type'' = ''Content-Type''"
  "CanonicalMIMEHeaderKey ''X-Content-Type-Options'' = ''X-Content-Type-Options''"
  by (simp_all add: canon_defs)

lemma WriteHeader_fresh:
  assumes "\<not> wroteHeader rw"
  shows "WriteHeader rw code =
           (if sint code < 100 \<or> sint code > 999 then None
            else Some (rw\<lparr>wroteHeader := True, sent_status := code, sent_header := rw_header rw\<rparr>))"
  using assms by (simp add: WriteHeader_def)

lemma Write_after_header:
  "wroteHeader rw \<Longrightarrow> Write rw data = rw\<lparr>sent_body := sent_body rw @ data\<rparr>"
  by (simp add: Write_def)

lemma serve_hit_eq:
  assumes "\<not> wroteHeader rw"
  shows "serve_hit w rw key val order =
           (if sint (StatusCode val) < 100 \<or> sint (StatusCode val) > 999 then
              \<lparr>after = w, writer = rw\<lparr>rw_header := Header_Set (rw_header rw) ''X-Cache'' ''HIT''\<rparr>,
               ending = Panicked, logged = [''HIT:   '' @ key]\<rparr>
            else
              \<lparr>after = w,
               writer = rw\<lparr>rw_header := copyHeaders (Header_Set (rw_header rw) ''X-Cache'' ''HIT'')
                                          (Headers val) order,
                          wroteHeader := True, sent_status := StatusCode val,
                          sent_header := Header_Set (rw_header rw) ''X-Cache'' ''HIT'',
                          sent_body := sent_body rw @ Body val\<rparr>,
               ending = Finished, logged = [''HIT:   '' @ key]\<rparr>)"
  using assms by (simp add: serve_hit_def WriteHeader_fresh Write_after_header Let_def)

lemma fail_forward_eq:
  assumes "\<not> wroteHeader rw"
  shows "wroteHeader (writer (fail_forward w rw lg))"
    and "sent_header (writer (fail_forward w rw lg)) ''X-Cache'' = rw_header rw ''X-Cache''"
    and "after (fail_forward w rw lg) = w"
    and "sent_status (writer (fail_forward w rw lg)) = 500"
  using assms
  by (simp_all add: fail_forward_def http_Error_def WriteHeader_fresh Write_after_header Let_def
      Header_Set_def)

lemma serve_miss_x_cache:
  assumes "\<not> wroteHeader rw" "wroteHeader (writer (serve_miss w cps rw r key up oc os))"
  shows "sent_header (writer (serve_miss w cps rw r key up oc os)) ''X-Cache'' = Some [''MISS'']"
  using assms
  by (cases up)
     (auto simp: serve_miss_def fail_forward_eq WriteHeader_fresh Write_after_header Let_def
        Header_Set_def split: if_splits prod.splits set_result.splits)

lemma serve_miss_after:
  "after (serve_miss w cps rw r key up oc os) =
     (case up of
        Fetched code hdr body \<Rightarrow>
          if Method r = ''GET'' \<and> WriteHeader (rw\<lparr>rw_header := Header_Set (rw_header rw) ''X-Cache'' ''MISS''\<rparr>) code \<noteq> None
          then fst (DeskCache_Set w (Cache cps) key \<lparr>StatusCode = code, Body = body, Headers = hdr\<rparr> os)
          else w
      | _ \<Rightarrow> w)"
  by (cases up)
     (auto simp: serve_miss_def fail_forward_def Let_def
        split: option.splits prod.splits set_result.splits)

lemma serve_hit_facts:
  assumes "\<not> wroteHeader rw"
  shows "after (serve_hit w rw key val order) = w"
    and "wroteHeader (writer (serve_hit w rw key val order)) \<Longrightarrow>
           sent_header (writer (serve_hit w rw key val order)) ''X-Cache'' = Some [''HIT''] \<and>
           sent_status (writer (serve_hit w rw key val order)) = StatusCode val \<and>
           sent_body (writer (serve_hit w rw key val order)) = sent_body rw @ Body val"
  using assms by (auto simp: serve_hit_eq Header_Set_def split: if_splits)

lemma ex_post_set_ok:
  "snd (DeskCache_Set ex_empty ex_cache ''POST-/a'' ex_entry ex_order) = Returned None"
  by (simp add: set_defs path_defs ex_empty_def ex_cache_def)

lemma ex_post_set:
  "DeskCache_Set ex_empty ex_cache ''POST-/a'' ex_entry ex_order = (ex_post_stored, Returned None)"
  using ex_post_set_ok by (simp add: ex_post_stored_def prod_eq_iff)

lemma ex_get_found: "DeskCache_Get ex_stored (Cache ex_server) (cache_key ex_get) = Some ex_entry"
  using DeskCache_Set_Get [OF ex_set ex_range_order ex_wire_safe]
  by (simp add: ex_server_def cache_key_def ex_get_def)

lemma ex_post_found: "DeskCache_Get ex_post_stored (Cache ex_server) (cache_key ex_post) = Some ex_entry"
  using DeskCache_Set_Get [OF ex_post_set ex_range_order ex_wire_safe]
  by (simp add: ex_server_def cache_key_def ex_post_def)

section \<open>The claims\<close>


text \<open>
  C2. \<open>Get\<close> returns not-found exactly when reading one of the three files \<open>status\<close>,
  \<open>headers\<close>, \<open>body\<close> of the key fails, whatever the reason of the failure: a missing or
  unreadable file is a miss, and an entry is returned only when all three files were
  read. The result of \<open>Get\<close> is an entry or nothing; it has no place for a read error.
\<close>

theorem C2_partial_write_miss:
  "DeskCache_Get w dc key = None \<longleftrightarrow>
     (\<exists>e. ReadFile w (Join [DirPath dc, key, ''status'']) = Inl e) \<or>
     (\<exists>e. ReadFile w (Join [DirPath dc, key, ''headers'']) = Inl e) \<or>
     (\<exists>e. ReadFile w (Join [DirPath dc, key, ''body'']) = Inl e)"
  by (rule DeskCache_Get_None_iff)

theorem C2_witness:
  "ReadFile ex_partial (Join [DirPath ex_cache, ''GET-/a'', ''status'']) = Inr ''200'' \<and>
   ReadFile ex_partial (Join [DirPath ex_cache, ''GET-/a'', ''headers'']) = Inl ENOENT \<and>
   ReadFile ex_partial (Join [DirPath ex_cache, ''GET-/a'', ''body'']) = Inr ''hello'' \<and>
   DeskCache_Get ex_partial ex_cache ''GET-/a'' = None"
  using C2_partial_write_miss [of ex_partial ex_cache "''GET-/a''"]
  by (simp add: ex_partial_def ex_defs path_defs read_defs)

text \<open>
  C3. When the three files of a key can be read, \<open>Get\<close> finds the entry they hold,
  however much time has passed on the clock and whatever the TTL of the cache is. The
  other operations of the cache that do not remove files leave the entry found: a \<open>Set\<close>
  for any key and entry, through any cache value and however it ends, and the
  construction of a cache.
\<close>

theorem C3_no_expiry:
  assumes "ReadFile w (Join [DirPath dc, key, ''status'']) = Inr s"
    and "ReadFile w (Join [DirPath dc, key, ''headers'']) = Inr h"
    and "ReadFile w (Join [DirPath dc, key, ''body'']) = Inr b"
  shows "DeskCache_Get (w\<lparr>now := now w + elapsed\<rparr>) (dc\<lparr>TTL := ttl\<rparr>) key =
           Some \<lparr>StatusCode = word_of_int (fst (Atoi s)), Body = b, Headers = parse_headers h\<rparr> \<and>
         DeskCache_Get (fst (DeskCache_Set w dc' key' val order)) dc key \<noteq> None \<and>
         DeskCache_Get (fst (NewDeskCache w dirPath port ttl')) dc key = DeskCache_Get w dc key"
proof -
  have found: "DeskCache_Get w dc key \<noteq> None"
    by (simp add: DeskCache_Get_readable [OF assms])
  have "DeskCache_Get (fst (DeskCache_Set w dc' key' val order)) dc key \<noteq> None"
    using DeskCache_Set_keeps found by (rule keeps_found)
  then show ?thesis
    using assms
    by (simp add: DeskCache_Get_now DeskCache_Get_TTL DeskCache_Get_readable NewDeskCache_eq)
qed

theorem C3_witness:
  "DeskCache_Get (ex_world\<lparr>now := now ex_world + 1000000000000000000\<rparr>)
     (ex_cache\<lparr>TTL := 1\<rparr>) ''GET-/a'' =
   Some \<lparr>StatusCode = 200, Body = ''hello'',
         Headers = parse_headers ''Content-Type,text/plain\<newline>broken line\<newline>X-A,1,2\<newline>''\<rparr>"
  using C3_no_expiry [OF ex_status ex_headers ex_body, of 1000000000000000000 1]
  by (simp add: atoi_defs)

text \<open>
  C6. When the three files of a key can be read, \<open>Get\<close> returns an entry whatever the
  headers file holds. A line that is not a header record is dropped, and the header map
  of the entry is exactly what the header records of the file say.
\<close>

theorem C6_best_effort_headers:
  assumes "ReadFile w (Join [DirPath dc, key, ''status'']) = Inr s"
    and "ReadFile w (Join [DirPath dc, key, ''headers'']) = Inr h"
    and "ReadFile w (Join [DirPath dc, key, ''body'']) = Inr b"
  shows "DeskCache_Get w dc key =
           Some \<lparr>StatusCode = word_of_int (fst (Atoi s)), Body = b,
                 Headers = collected (filter header_record (split_on (CHR 0x0A) h))\<rparr>"
proof -
  have "parse_headers h = collected (filter header_record (split_on (CHR 0x0A) h))"
    by (rule ext) (rule parse_headers_collected)
  then show ?thesis
    using DeskCache_Get_readable [OF assms] by simp
qed

theorem C6_witness:
  "DeskCache_Get ex_world ex_cache ''GET-/a'' =
     Some \<lparr>StatusCode = 200, Body = ''hello'',
           Headers = collected [''Content-Type,text/plain'', ''X-A,1,2'']\<rparr> \<and>
   collected [''Content-Type,text/plain'', ''X-A,1,2''] ''Content-Type'' = Some [''text/plain''] \<and>
   collected [''Content-Type,text/plain'', ''X-A,1,2''] ''X-A'' = Some [''1'', ''2''] \<and>
   collected [''Content-Type,text/plain'', ''X-A,1,2''] ''broken line'' = None"
  using C6_best_effort_headers [OF ex_status ex_headers ex_body]
  by (simp add: atoi_defs header_record_def collected_def line_name_def line_values_def
      CanonicalMIMEHeaderKey_def validHeaderFieldByte_def lower_letters_def upper_letters_def
      to_upper_def to_lower_def)

text \<open>
  C9, as stated, fails: a status file holding \<open>99999999999999999999x\<close> is not a decimal
  integer, \<open>Atoi\<close> reports an error for it, and \<open>Get\<close> returns the status code
  9223372036854775807, not 0.
\<close>

theorem C9_counterexample:
  "\<not> decimal_integer ''99999999999999999999x'' \<and>
   snd (Atoi ''99999999999999999999x'') = Some ErrRange \<and>
   ReadFile ex_overflow (Join [DirPath ex_cache, ''GET-/a'', ''status'']) = Inr ''99999999999999999999x'' \<and>
   map_option StatusCode (DeskCache_Get ex_overflow ex_cache ''GET-/a'') = Some 9223372036854775807 \<and>
   (9223372036854775807 :: 64 word) \<noteq> 0"
  by (simp add: decimal_integer_def atoi_defs ex_overflow_def ex_status_path_def ex_defs path_defs
      read_defs DeskCache_Get_def)

text \<open>
  C9, amended. When the status file can be read (and so can the other two) and \<open>Atoi\<close>
  reports an error for its contents, \<open>Get\<close> still returns an entry: the error is dropped
  and the status code is the value \<open>Atoi\<close> returned with it, 0 for a syntax error and
  the nearest bound of the 64-bit integers when the digits overflow.
\<close>

theorem C9_status_parse_error:
  assumes "ReadFile w (Join [DirPath dc, key, ''status'']) = Inr s"
    and "ReadFile w (Join [DirPath dc, key, ''headers'']) = Inr h"
    and "ReadFile w (Join [DirPath dc, key, ''body'']) = Inr b"
    and "snd (Atoi s) = Some err"
  shows "DeskCache_Get w dc key =
           Some \<lparr>StatusCode =
                   (case err of
                      ErrSyntax \<Rightarrow> 0
                    | ErrRange \<Rightarrow> if is_neg s then word_of_int (- (2 ^ 63))
                                  else word_of_int (2 ^ 63 - 1)),
                 Body = b, Headers = parse_headers h\<rparr>"
  using DeskCache_Get_readable [OF assms(1-3)] Atoi_error_value [OF assms(4)]
  by (cases err) simp_all

theorem C9_witness:
  "ReadFile ex_garbled (Join [DirPath ex_cache, ''GET-/a'', ''status'']) = Inr ''2oo'' \<and>
   Atoi ''2oo'' = (0, Some ErrSyntax) \<and>
   map_option StatusCode (DeskCache_Get ex_garbled ex_cache ''GET-/a'') = Some 0"
  using C9_status_parse_error [of ex_garbled ex_cache "''GET-/a''" "''2oo''" _ _ ErrSyntax]
  by (simp add: atoi_defs ex_garbled_def ex_status_path_def ex_defs path_defs read_defs)

text \<open>
  C1, as stated, fails: an entry with the header \<open>Date: Mon, 02 Jan\<close> is stored without
  error, and \<open>Get\<close> returns an entry whose \<open>Date\<close> header has the two values \<open>Mon\<close> and
  \<open> 02 Jan\<close>.
\<close>

theorem C1_counterexample:
  "DeskCache_Set ex_empty ex_cache ''GET-/a'' ex_dated [''Date''] = (ex_dated_stored, Returned None) \<and>
   range_order (Headers ex_dated) [''Date''] \<and>
   DeskCache_Get ex_dated_stored ex_cache ''GET-/a'' =
     Some \<lparr>StatusCode = 200, Body = ''hello'', Headers = [''Date'' \<mapsto> [''Mon'', '' 02 Jan'']]\<rparr> \<and>
   DeskCache_Get ex_dated_stored ex_cache ''GET-/a'' \<noteq> Some ex_dated"
proof -
  have "[''Date'' \<mapsto> [''Mon'', '' 02 Jan'']] ''Date'' \<noteq> Headers ex_dated ''Date''"
    by (simp add: ex_dated_def)
  then have "[''Date'' \<mapsto> [''Mon'', '' 02 Jan'']] \<noteq> Headers ex_dated"
    by metis
  then have "\<lparr>StatusCode = 200, Body = ''hello'', Headers = [''Date'' \<mapsto> [''Mon'', '' 02 Jan'']]\<rparr>
      \<noteq> ex_dated"
    by (auto simp: ex_dated_def)
  then show ?thesis
    using ex_dated_set ex_dated_get by (simp add: range_order_def ex_dated_def)
qed

text \<open>
  C1, amended. When \<open>Set\<close> returns without error for an entry whose headers survive the
  headers file (no comma and no newline in a name or a value, names in canonical form,
  at least one value per name), \<open>Get\<close> for the same key returns that entry: the same
  status code, the same body, and the same header map with the values of each name in
  the same order, whatever the order in which Go visited the map.
\<close>

theorem C1_round_trip:
  assumes "DeskCache_Set w dc key val order = (w', Returned None)"
    and "range_order (Headers val) order"
    and "wire_safe (range_of (Headers val) order)"
  shows "DeskCache_Get w' dc key = Some val"
  using assms by (rule DeskCache_Set_Get)

theorem C1_witness:
  "DeskCache_Set ex_empty ex_cache ''GET-/a'' ex_entry ex_order = (ex_stored, Returned None) \<and>
   DeskCache_Get ex_stored ex_cache ''GET-/a'' = Some ex_entry"
  using C1_round_trip [OF ex_set ex_range_order ex_wire_safe] ex_set
  by simp

text \<open>
  C4. When \<open>Set\<close> returns without error, the directory \<open>Join(root, key)\<close> exists and holds
  three files: \<open>status\<close> with the decimal string of the status code, \<open>headers\<close> with one
  line \<open>name,value,...\<close> per header name (in the order Go visits the map, each ended by a
  newline, nothing escaped), and \<open>body\<close> with the body. Nothing else changes but the
  directories on the way to the entry directory, which are created when missing.
\<close>

theorem C4_disk_format:
  assumes "DeskCache_Set w dc key val order = (w', Returned None)"
    and "range_order (Headers val) order"
  shows "Stat w' (Join [DirPath dc, key]) = Inr Dir \<and>
         ReadFile w' (Join [DirPath dc, key, ''status'']) = Inr (Itoa (sint (StatusCode val))) \<and>
         ReadFile w' (Join [DirPath dc, key, ''headers'']) =
           Inr (concat (map header_line (range_of (Headers val) order))) \<and>
         map fst (range_of (Headers val) order) = order \<and>
         map_of (range_of (Headers val) order) = Headers val \<and>
         ReadFile w' (Join [DirPath dc, key, ''body'']) = Inr (Body val) \<and>
         (\<forall>q. q \<notin> {resolve w (Join [DirPath dc, key]) @ [''status''],
                    resolve w (Join [DirPath dc, key]) @ [''headers''],
                    resolve w (Join [DirPath dc, key]) @ [''body'']} \<longrightarrow>
              files w' q = files w q \<or>
              (files w q = None \<and> files w' q = Some Dir \<and>
               prefix q (resolve w (Join [DirPath dc, key]))))"
  using DeskCache_Set_dir [OF assms(1)] DeskCache_Set_reads [OF assms(1)]
    range_of_order(1,2) [OF assms(2)] DeskCache_Set_frame [OF assms(1)]
  by (simp add: headers_string_eq)

theorem C4_witness:
  "Stat ex_stored ''cache/GET-/a'' = Inr Dir \<and>
   ReadFile ex_stored ''cache/GET-/a/status'' = Inr ''200'' \<and>
   ReadFile ex_stored ''cache/GET-/a/headers'' = Inr ''X-A,1,2\<newline>Content-Type,text/plain\<newline>'' \<and>
   ReadFile ex_stored ''cache/GET-/a/body'' = Inr ''hello''"
  using C4_disk_format [OF ex_set ex_range_order]
  by (simp add: path_defs ex_cache_def ex_entry_def ex_order_def header_line_def range_of_def
      map_filter_simps Itoa_def decimal.simps digit_char_def)






text \<open>
  C8. For a request handled with a fresh response writer: a request that is not a GET
  takes the miss path and leaves the file system as it is, also when an entry lies
  under its key; whenever the handler changes the file system, the request is a GET and
  the change is \<open>Set\<close> storing the upstream response under the key of the request; every
  response whose header has been written carries \<open>X-Cache\<close> with the single value \<open>HIT\<close>
  when the request is a GET and \<open>Get\<close> found an entry, and \<open>MISS\<close> otherwise; and a GET
  whose entry is found is answered from the entry alone (its status code and body),
  whatever the upstream would have said, and stores nothing.
\<close>

theorem C8_get_only_x_cache:
  assumes "\<not> wroteHeader rw"
  shows "(Method r \<noteq> ''GET'' \<longrightarrow>
            after (handleRequests w cps rw r up oc os) = w \<and>
            handleRequests w cps rw r up oc os = serve_miss w cps rw r (cache_key r) up oc os) \<and>
         (after (handleRequests w cps rw r up oc os) \<noteq> w \<longrightarrow>
            Method r = ''GET'' \<and>
            (\<exists>code hdr body. up = Fetched code hdr body \<and>
               after (handleRequests w cps rw r up oc os) =
                 fst (DeskCache_Set w (Cache cps) (cache_key r)
                        \<lparr>StatusCode = code, Body = body, Headers = hdr\<rparr> os))) \<and>
         (wroteHeader (writer (handleRequests w cps rw r up oc os)) \<longrightarrow>
            sent_header (writer (handleRequests w cps rw r up oc os)) ''X-Cache'' =
              Some [if Method r = ''GET'' \<and> DeskCache_Get w (Cache cps) (cache_key r) \<noteq> None
                    then ''HIT'' else ''MISS'']) \<and>
         (\<forall>val. Method r = ''GET'' \<and> DeskCache_Get w (Cache cps) (cache_key r) = Some val \<longrightarrow>
            handleRequests w cps rw r up oc os = serve_hit w rw (cache_key r) val oc \<and>
            after (handleRequests w cps rw r up oc os) = w \<and>
            (wroteHeader (writer (handleRequests w cps rw r up oc os)) \<longrightarrow>
               sent_status (writer (handleRequests w cps rw r up oc os)) = StatusCode val \<and>
               sent_body (writer (handleRequests w cps rw r up oc os)) = sent_body rw @ Body val))"
  (is "?only_get \<and> ?stored \<and> ?marker \<and> ?served")
proof -
  let ?key = "cache_key r"
  let ?hit = "Method r = ''GET'' \<and> DeskCache_Get w (Cache cps) ?key \<noteq> None"
  have miss: "\<not> ?hit \<Longrightarrow>
      handleRequests w cps rw r up oc os = serve_miss w cps rw r ?key up oc os"
    by (auto simp: handleRequests_def Let_def split: option.splits)
  have hit: "\<And>val. Method r = ''GET'' \<Longrightarrow> DeskCache_Get w (Cache cps) ?key = Some val \<Longrightarrow>
      handleRequests w cps rw r up oc os = serve_hit w rw ?key val oc"
    by (simp add: handleRequests_def Let_def)
  have stored_miss: "after (serve_miss w cps rw r ?key up oc os) \<noteq> w \<Longrightarrow>
        Method r = ''GET'' \<and>
        (\<exists>code hdr body. up = Fetched code hdr body \<and>
           after (serve_miss w cps rw r ?key up oc os) =
             fst (DeskCache_Set w (Cache cps) ?key \<lparr>StatusCode = code, Body = body, Headers = hdr\<rparr> os))"
    by (cases up) (auto simp: serve_miss_after split: if_splits)
  have c1: ?only_get
  proof
    assume ng: "Method r \<noteq> ''GET''"
    then have h: "handleRequests w cps rw r up oc os = serve_miss w cps rw r ?key up oc os"
      by (simp add: miss)
    have "after (serve_miss w cps rw r ?key up oc os) = w"
      using stored_miss ng by blast
    with h show "after (handleRequests w cps rw r up oc os) = w \<and>
        handleRequests w cps rw r up oc os = serve_miss w cps rw r ?key up oc os"
      by simp
  qed
  have c2: ?stored
  proof
    assume ch: "after (handleRequests w cps rw r up oc os) \<noteq> w"
    have "\<not> ?hit"
    proof
      assume ?hit
      then obtain val where "Method r = ''GET''" "DeskCache_Get w (Cache cps) ?key = Some val"
        by auto
      then have "handleRequests w cps rw r up oc os = serve_hit w rw ?key val oc"
        by (rule hit)
      with ch show False
        by (simp add: serve_hit_facts(1) [OF assms])
    qed
    then have h: "handleRequests w cps rw r up oc os = serve_miss w cps rw r ?key up oc os"
      by (rule miss)
    show "Method r = ''GET'' \<and>
        (\<exists>code hdr body. up = Fetched code hdr body \<and>
           after (handleRequests w cps rw r up oc os) =
             fst (DeskCache_Set w (Cache cps) ?key \<lparr>StatusCode = code, Body = body, Headers = hdr\<rparr> os))"
      using stored_miss ch unfolding h by blast
  qed
  have c3: ?marker
  proof
    assume wr: "wroteHeader (writer (handleRequests w cps rw r up oc os))"
    show "sent_header (writer (handleRequests w cps rw r up oc os)) ''X-Cache'' =
        Some [if ?hit then ''HIT'' else ''MISS'']"
    proof (cases ?hit)
      case True
      then obtain val where v: "Method r = ''GET''" "DeskCache_Get w (Cache cps) ?key = Some val"
        by auto
      have h: "handleRequests w cps rw r up oc os = serve_hit w rw ?key val oc"
        using v by (rule hit)
      show ?thesis
        using serve_hit_facts(2) [OF assms, of w ?key val oc] wr True unfolding h by simp
    next
      case False
      then have h: "handleRequests w cps rw r up oc os = serve_miss w cps rw r ?key up oc os"
        by (rule miss)
      show ?thesis
        using serve_miss_x_cache [OF assms, of w cps r ?key up oc os] wr False unfolding h
        by simp
    qed
  qed
  have c4: ?served
  proof (intro allI impI)
    fix val
    assume "Method r = ''GET'' \<and> DeskCache_Get w (Cache cps) ?key = Some val"
    then have h: "handleRequests w cps rw r up oc os = serve_hit w rw ?key val oc"
      using hit by blast
    show "handleRequests w cps rw r up oc os = serve_hit w rw ?key val oc \<and>
        after (handleRequests w cps rw r up oc os) = w \<and>
        (wroteHeader (writer (handleRequests w cps rw r up oc os)) \<longrightarrow>
           sent_status (writer (handleRequests w cps rw r up oc os)) = StatusCode val \<and>
           sent_body (writer (handleRequests w cps rw r up oc os)) = sent_body rw @ Body val)"
      using serve_hit_facts [OF assms, of w ?key val oc] unfolding h by simp
  qed
  show ?thesis
    by (rule conjI [OF c1 conjI [OF c2 conjI [OF c3 c4]]])
qed

theorem C8_witness:
  "DeskCache_Get ex_stored (Cache ex_server) (cache_key ex_get) = Some ex_entry \<and>
   sent_header (writer (handleRequests ex_stored ex_server fresh_writer ex_get ex_up ex_order []))
     ''X-Cache'' = Some [''HIT''] \<and>
   sent_body (writer (handleRequests ex_stored ex_server fresh_writer ex_get ex_up ex_order [])) = ''hello'' \<and>
   DeskCache_Get ex_post_stored (Cache ex_server) (cache_key ex_post) = Some ex_entry \<and>
   sent_header (writer (handleRequests ex_post_stored ex_server fresh_writer ex_post ex_up
     [''Content-Type''] [])) ''X-Cache'' = Some [''MISS''] \<and>
   sent_body (writer (handleRequests ex_post_stored ex_server fresh_writer ex_post ex_up
     [''Content-Type''] [])) = ''made'' \<and>
   after (handleRequests ex_post_stored ex_server fresh_writer ex_post ex_up [''Content-Type''] []) =
     ex_post_stored"
proof -
  have f: "\<not> wroteHeader fresh_writer" by (simp add: fresh_writer_def)
  have g: "Method ex_get = ''GET''" and p: "Method ex_post \<noteq> ''GET''"
    by (simp_all add: ex_get_def ex_post_def)
  have hit: "wroteHeader (writer (serve_hit ex_stored fresh_writer (cache_key ex_get) ex_entry ex_order))"
    by (simp add: serve_hit_eq [OF f]) (simp add: ex_entry_def)
  have miss: "wroteHeader (writer (serve_miss ex_post_stored ex_server fresh_writer ex_post
      (cache_key ex_post) ex_up [''Content-Type''] []))"
    "sent_body (writer (serve_miss ex_post_stored ex_server fresh_writer ex_post
      (cache_key ex_post) ex_up [''Content-Type''] [])) = ''made''"
    using p by (simp_all add: serve_miss_def ex_up_def WriteHeader_fresh [OF f] WriteHeader_def
        Write_after_header Let_def fresh_writer_def)
  have b: "sent_body fresh_writer @ Body ex_entry = ''hello''"
    by (simp add: fresh_writer_def ex_entry_def)
  show ?thesis
    using C8_get_only_x_cache [OF f, of ex_get ex_stored ex_server ex_up ex_order "[]"]
      C8_get_only_x_cache [OF f, of ex_post ex_post_stored ex_server ex_up "[''Content-Type'']" "[]"]
      ex_get_found ex_post_found g p hit miss b
    by auto
qed

end
